theory Spec2Isabelle
  imports Main "HOL-Library.Word"
begin

section \<open>Configuration (src/configurations)\<close>

text \<open>
  \<^verbatim>\<open>RecordingMode\<close> is a plain \<^verbatim>\<open>Enum\<close> with string values
  (recording\_mode.py). \<open>mode_value\<close> is the member's \<^verbatim>\<open>.value\<close>.
\<close>

datatype RecordingMode = VOICE_ACTIVITY_DETECTION | PRESS_TO_TOGGLE | HOLD_TO_RECORD | CONTINUOUS

fun mode_value :: "RecordingMode \<Rightarrow> string" where
  "mode_value VOICE_ACTIVITY_DETECTION = ''voice_activity_detection''"
| "mode_value PRESS_TO_TOGGLE = ''press_to_toggle''"
| "mode_value HOLD_TO_RECORD = ''hold_to_record''"
| "mode_value CONTINUOUS = ''continuous''"

text \<open>
  Python is dynamically typed: the attribute \<^verbatim>\<open>config.recording_mode\<close> holds either a
  member of the enumeration or a string. \<open>py_eq\<close> is Python's \<^verbatim>\<open>==\<close> on these values:
  \<^verbatim>\<open>RecordingMode\<close> derives from \<^verbatim>\<open>Enum\<close> alone (no \<^verbatim>\<open>str\<close> mixin), so a member
  is equal only to itself and never to a string, its own value included.
\<close>

datatype py_value = Member RecordingMode | Str string

fun py_eq :: "py_value \<Rightarrow> py_value \<Rightarrow> bool" where
  "py_eq (Member a) (Member b) = (a = b)"
| "py_eq (Str a) (Str b) = (a = b)"
| "py_eq (Member a) (Str b) = False"
| "py_eq (Str a) (Member b) = False"

text \<open>
  The exceptions the collaborators raise. All but \<open>KeyboardInterrupt\<close> derive from
  \<^verbatim>\<open>Exception\<close>, which is what \<^verbatim>\<open>except Exception\<close> catches.
\<close>

datatype py_exception =
    PortAudioError
  | VadError
  | OSError
  | BackendError
  | ValueError
  | KeyboardInterrupt

fun is_Exception :: "py_exception \<Rightarrow> bool" where
  "is_Exception KeyboardInterrupt = False"
| "is_Exception PortAudioError = True"
| "is_Exception VadError = True"
| "is_Exception OSError = True"
| "is_Exception BackendError = True"
| "is_Exception ValueError = True"

text \<open>
  The fields of \<^verbatim>\<open>Configuration\<close> that \<^verbatim>\<open>TranscriptionService\<close> reads and acts on
  (\<open>local_device\<close> is \<^verbatim>\<open>local_model_options.device\<close>). The activation key, the
  sound device and the model options are only handed on to the collaborators, whose answers
  are observations of the environment below.
\<close>

record configuration =
  use_api :: bool
  local_device :: string
  recording_mode :: py_value
  sample_rate :: int
  silence_duration :: int
  remove_trailing_period :: bool
  add_trailing_space :: bool
  remove_capitalization :: bool

definition validate_configuration :: "configuration \<Rightarrow> py_exception + unit" where
  "validate_configuration c =
     (case recording_mode c of
        Member m \<Rightarrow> Inr ()
      | Str s \<Rightarrow> Inl ValueError)"

text \<open>\<^verbatim>\<open>Configuration.__init__\<close>: store the fields, then validate.\<close>

definition Configuration :: "configuration \<Rightarrow> py_exception + configuration" where
  "Configuration c =
     (case validate_configuration c of
        Inl e \<Rightarrow> Inl e
      | Inr u \<Rightarrow> Inr c)"

definition default_configuration :: configuration where
  "default_configuration =
     \<lparr> use_api = False, local_device = ''auto'',
       recording_mode = Member VOICE_ACTIVITY_DETECTION,
       sample_rate = 16000, silence_duration = 900,
       remove_trailing_period = True, add_trailing_space = False,
       remove_capitalization = False \<rparr>"

section \<open>Python list and string primitives\<close>

text \<open>\<^verbatim>\<open>xs[:n]\<close> and \<^verbatim>\<open>xs[n:]\<close> for an integer \<open>n\<close>; a negative bound counts from the end.\<close>

definition slice_to :: "int \<Rightarrow> 'a list \<Rightarrow> 'a list" where
  "slice_to n xs =
     (if 0 \<le> n then take (nat n) xs else take (length xs - nat (- n)) xs)"

definition slice_from :: "int \<Rightarrow> 'a list \<Rightarrow> 'a list" where
  "slice_from n xs =
     (if 0 \<le> n then drop (nat n) xs else drop (length xs - nat (- n)) xs)"

text \<open>
  Text is a list of characters standing for the code points U+0000 to U+00FF.
  \<open>is_space\<close> is \<^verbatim>\<open>str.isspace\<close> on that range (tab to carriage return, the four
  separators U+001C to U+001F, space, U+0085 and U+00A0), \<open>lower_char\<close> is
  \<^verbatim>\<open>str.lower\<close> on it (A to Z, and U+00C0 to U+00DE without the multiplication sign).
\<close>

definition is_space :: "char \<Rightarrow> bool" where
  "is_space c =
     (let n = (of_char c :: nat)
      in (9 \<le> n \<and> n \<le> 13) \<or> (28 \<le> n \<and> n \<le> 32) \<or> n = 133 \<or> n = 160)"

definition lstrip :: "string \<Rightarrow> string" where
  "lstrip s = dropWhile is_space s"

definition rstrip :: "string \<Rightarrow> string" where
  "rstrip s = rev (dropWhile is_space (rev s))"

definition strip :: "string \<Rightarrow> string" where
  "strip s = lstrip (rstrip s)"

definition endswith :: "string \<Rightarrow> string \<Rightarrow> bool" where
  "endswith s suffix =
     (length suffix \<le> length s \<and> drop (length s - length suffix) s = suffix)"

definition lower_char :: "char \<Rightarrow> char" where
  "lower_char c =
     (let n = (of_char c :: nat)
      in if (65 \<le> n \<and> n \<le> 90) \<or> (192 \<le> n \<and> n \<le> 222 \<and> n \<noteq> 215)
         then char_of (n + 32) else c)"

definition lower :: "string \<Rightarrow> string" where
  "lower s = map lower_char s"

section \<open>Post-processing (TranscriptionService.post\_process\_transcription)\<close>

definition post_process_transcription :: "configuration \<Rightarrow> string \<Rightarrow> string" where
  "post_process_transcription cfg transcription =
     (let t1 = strip transcription;
          t2 = (if remove_trailing_period cfg \<and> endswith t1 ''.''
                then slice_to (- 1) t1 else t1);
          t3 = (if add_trailing_space cfg then t2 @ '' '' else t2);
          t4 = (if remove_capitalization cfg then lower t3 else t3)
      in t4)"

text \<open>
  The pipeline as the specification words it, step by step, over a
  \<open>PostProcessConfig\<close> of three independent booleans.
\<close>

record PostProcessConfig =
  pp_remove_trailing_period :: bool
  pp_add_trailing_space :: bool
  pp_remove_capitalization :: bool

definition post_process_config :: "configuration \<Rightarrow> PostProcessConfig" where
  "post_process_config cfg =
     \<lparr> pp_remove_trailing_period = remove_trailing_period cfg,
       pp_add_trailing_space = add_trailing_space cfg,
       pp_remove_capitalization = remove_capitalization cfg \<rparr>"

fun trim_leading :: "string \<Rightarrow> string" where
  "trim_leading [] = []"
| "trim_leading (c # cs) = (if is_space c then trim_leading cs else c # cs)"

fun trim_trailing :: "string \<Rightarrow> string" where
  "trim_trailing [] = []"
| "trim_trailing (c # cs) =
     (case trim_trailing cs of
        [] \<Rightarrow> (if is_space c then [] else [c])
      | d # ds \<Rightarrow> c # d # ds)"

definition spec_trim :: "string \<Rightarrow> string" where
  "spec_trim s = trim_trailing (trim_leading s)"

definition spec_drop_period :: "PostProcessConfig \<Rightarrow> string \<Rightarrow> string" where
  "spec_drop_period pc s =
     (if pp_remove_trailing_period pc \<and> s \<noteq> [] \<and> last s = CHR ''.''
      then butlast s else s)"

definition spec_add_space :: "PostProcessConfig \<Rightarrow> string \<Rightarrow> string" where
  "spec_add_space pc s = (if pp_add_trailing_space pc then s @ [CHR '' ''] else s)"

definition spec_lowercase :: "PostProcessConfig \<Rightarrow> string \<Rightarrow> string" where
  "spec_lowercase pc s = (if pp_remove_capitalization pc then map lower_char s else s)"

definition spec_post_process :: "PostProcessConfig \<Rightarrow> string \<Rightarrow> string" where
  "spec_post_process pc s =
     spec_lowercase pc (spec_add_space pc (spec_drop_period pc (spec_trim s)))"

text \<open>
  The texts on which a second pass still finds something to remove: the trailing period is
  to be removed and the trimmed text ends in a period that follows another period or
  white space.
\<close>

definition residual_tail :: "configuration \<Rightarrow> string \<Rightarrow> bool" where
  "residual_tail cfg t =
     (let s = strip t
      in remove_trailing_period cfg \<and> 2 \<le> length s \<and> last s = CHR ''.'' \<and>
         (last (butlast s) = CHR ''.'' \<or> is_space (last (butlast s))))"


text \<open>Auxiliary notions for reasoning about one pass of the post-processor.\<close>

definition stripped :: "string \<Rightarrow> bool" where
  "stripped s = (s = [] \<or> (\<not> is_space (hd s) \<and> \<not> is_space (last s)))"

definition finish :: "configuration \<Rightarrow> string \<Rightarrow> string" where
  "finish cfg s =
     (let t3 = (if add_trailing_space cfg then s @ '' '' else s)
      in if remove_capitalization cfg then lower t3 else t3)"

section \<open>The world the service acts on\<close>

text \<open>
  The status queue (\<^verbatim>\<open>status_queue.put\<close> appends), the finished audio files, the calls
  made to the transcription backends, and \<^verbatim>\<open>self.local_model\<close> (the device the model was
  loaded on, when there is one). Logging changes none of them and is left out.
\<close>

type_synonym sample = "16 word"

record wav =
  nchannels :: int
  sampwidth :: int
  framerate :: int
  frames :: "sample list"

datatype backend_call = LoadModel string | LocalTranscribe string | ApiTranscribe string

record world =
  status_queue :: "(string \<times> string) list"
  wav_files :: "(string \<times> wav) list"
  backend_calls :: "backend_call list"
  local_model :: "string option"

definition put :: "string \<times> string \<Rightarrow> world \<Rightarrow> world" where
  "put ev w = w\<lparr>status_queue := status_queue w @ [ev]\<rparr>"

definition called :: "backend_call \<Rightarrow> world \<Rightarrow> world" where
  "called c w = w\<lparr>backend_calls := backend_calls w @ [c]\<rparr>"

section \<open>The capture loop (TranscriptionService.record)\<close>

definition frame_duration :: int where
  "frame_duration = 30"

definition blocksize :: "configuration \<Rightarrow> int" where
  "blocksize cfg = (sample_rate cfg * frame_duration) div 1000"

definition num_silence_frames :: "configuration \<Rightarrow> int" where
  "num_silence_frames cfg = silence_duration cfg div frame_duration"

text \<open>
  What one pass through the \<^verbatim>\<open>while\<close> loop observes of its environment, in the order
  the loop asks: \<^verbatim>\<open>cancel_flag()\<close> at the loop head, the samples the stream callback has
  appended to \<^verbatim>\<open>buffer\<close> since the previous pass, \<^verbatim>\<open>cancel_flag()\<close> after a frame
  was cut, \<^verbatim>\<open>keyboard.is_pressed\<close> and \<^verbatim>\<open>vad.is_speech\<close> (either may raise).
  A finite list of passes is all a run is given: when it is used up with the loop still
  going, the loop has not returned.
\<close>

record tick =
  poll_top :: bool
  arrived :: "sample list"
  poll_mid :: bool
  key_pressed :: "py_exception + bool"
  is_speech :: "py_exception + bool"

record loop_state =
  buffer :: "sample list"
  recording :: "sample list"
  num_silent_frames :: int

datatype step = Next loop_state | Break loop_state | Raise py_exception

datatype loop_exit = FlagSeen loop_state | Broke loop_state | Raised py_exception

definition extend_recording :: "sample list \<Rightarrow> loop_state \<Rightarrow> loop_state" where
  "extend_recording frame st = st\<lparr>recording := recording st @ frame\<rparr>"

text \<open>
  The first \<^verbatim>\<open>if\<close> of the mode logic (press to toggle). \<^verbatim>\<open>and\<close> short-circuits:
  the key is read only when something has been recorded.
\<close>

definition toggle_block :: "configuration \<Rightarrow> tick \<Rightarrow> sample list \<Rightarrow> loop_state \<Rightarrow> step" where
  "toggle_block cfg t frame st =
     (if py_eq (recording_mode cfg) (Str (mode_value PRESS_TO_TOGGLE)) then
        (if 0 < length (recording st) then
           (case key_pressed t of
              Inl e \<Rightarrow> Raise e
            | Inr True \<Rightarrow> Break st
            | Inr False \<Rightarrow> Next (extend_recording frame st))
         else Next (extend_recording frame st))
      else Next st)"

text \<open>The \<^verbatim>\<open>if\<close> / \<^verbatim>\<open>elif\<close> chain that follows it (hold to record, voice activity).\<close>

definition hold_vad_block :: "configuration \<Rightarrow> tick \<Rightarrow> sample list \<Rightarrow> loop_state \<Rightarrow> step" where
  "hold_vad_block cfg t frame st =
     (if py_eq (recording_mode cfg) (Str (mode_value HOLD_TO_RECORD)) then
        (case key_pressed t of
           Inl e \<Rightarrow> Raise e
         | Inr True \<Rightarrow> Next (extend_recording frame st)
         | Inr False \<Rightarrow> Break st)
      else if py_eq (recording_mode cfg) (Str (mode_value VOICE_ACTIVITY_DETECTION)) then
        (case is_speech t of
           Inl e \<Rightarrow> Raise e
         | Inr True \<Rightarrow> Next ((extend_recording frame st)\<lparr>num_silent_frames := 0\<rparr>)
         | Inr False \<Rightarrow>
             (let st1 = (if 0 < length (recording st)
                         then st\<lparr>num_silent_frames := num_silent_frames st + 1\<rparr> else st)
              in if num_silence_frames cfg \<le> num_silent_frames st1 then Break st1 else Next st1))
      else Next st)"

definition mode_logic :: "configuration \<Rightarrow> tick \<Rightarrow> sample list \<Rightarrow> loop_state \<Rightarrow> step" where
  "mode_logic cfg t frame st =
     (case toggle_block cfg t frame st of
        Next st1 \<Rightarrow> hold_vad_block cfg t frame st1
      | Break st1 \<Rightarrow> Break st1
      | Raise e \<Rightarrow> Raise e)"

text \<open>
  One pass through the \<^verbatim>\<open>while\<close> loop, from the check of the flag at its head:
  \<open>Inl\<close> when the loop is left, \<open>Inr\<close> with the state the next pass starts from.
\<close>

definition loop_pass :: "configuration \<Rightarrow> tick \<Rightarrow> loop_state \<Rightarrow> loop_exit + loop_state" where
  "loop_pass cfg t st =
     (let st1 = st\<lparr>buffer := buffer st @ arrived t\<rparr>
      in if poll_top t then Inl (FlagSeen st1)
         else if int (length (buffer st1)) < blocksize cfg then Inr st1
         else
           (let frame = slice_to (blocksize cfg) (buffer st1);
                st2 = st1\<lparr>buffer := slice_from (blocksize cfg) (buffer st1)\<rparr>
            in if poll_mid t then Inr st2
               else
                 (case mode_logic cfg t frame st2 of
                    Next st3 \<Rightarrow> Inr st3
                  | Break st3 \<Rightarrow> Inl (Broke st3)
                  | Raise e \<Rightarrow> Inl (Raised e))))"

fun capture_loop :: "configuration \<Rightarrow> tick list \<Rightarrow> loop_state \<Rightarrow> loop_exit option" where
  "capture_loop cfg [] st = None"
| "capture_loop cfg (t # ts) st =
     (case loop_pass cfg t st of
        Inl ex \<Rightarrow> Some ex
      | Inr st' \<Rightarrow> capture_loop cfg ts st')"

text \<open>The same passes, keeping the state when the loop is still going at their end.\<close>

fun loop_run :: "configuration \<Rightarrow> tick list \<Rightarrow> loop_state \<Rightarrow> loop_exit + loop_state" where
  "loop_run cfg [] st = Inr st"
| "loop_run cfg (t # ts) st =
     (case loop_pass cfg t st of
        Inl ex \<Rightarrow> Inl ex
      | Inr st' \<Rightarrow> loop_run cfg ts st')"

text \<open>
  Passes for examples: one in which exactly \<open>frame\<close> arrives with the flag clear, the key
  and the detector answering \<open>k\<close> and \<open>s\<close>; and one whose head check sees the flag.
\<close>

definition frame_tick :: "sample list \<Rightarrow> bool \<Rightarrow> bool \<Rightarrow> tick" where
  "frame_tick frame k s =
     \<lparr> poll_top = False, arrived = frame, poll_mid = False,
       key_pressed = Inr k, is_speech = Inr s \<rparr>"

definition cancel_tick :: tick where
  "cancel_tick =
     \<lparr> poll_top = True, arrived = [], poll_mid = True,
       key_pressed = Inr False, is_speech = Inr False \<rparr>"

definition initial_state :: loop_state where
  "initial_state = \<lparr> buffer = [], recording = [], num_silent_frames = 0 \<rparr>"

text \<open>
  The rest of what \<^verbatim>\<open>record\<close> observes: whether opening and closing the input stream
  raise, \<^verbatim>\<open>cancel_flag()\<close> after the loop, the stem of the temporary file's name (or
  the failure to create it), and whether writing the WAV file raises.
\<close>

record capture_env =
  stream_open :: "py_exception option"
  ticks :: "tick list"
  stream_close :: "py_exception option"
  poll_after :: bool
  named_temporary_file :: "py_exception + string"
  wave_write :: "py_exception option"

text \<open>
  What follows the \<^verbatim>\<open>with\<close> block once the stream is closed: the cancellation check,
  then the WAV file.
\<close>

definition finish_recording ::
  "configuration \<Rightarrow> capture_env \<Rightarrow> world \<Rightarrow> loop_state \<Rightarrow> (py_exception + string) \<times> world" where
  "finish_recording cfg env w st =
     (if poll_after env then (Inr '''', put (''cancel'', '''') w)
      else
        (case named_temporary_file env of
           Inl e \<Rightarrow> (Inl e, w)
         | Inr stem \<Rightarrow>
             (case wave_write env of
                Some e \<Rightarrow> (Inl e, w)
              | None \<Rightarrow>
                  (Inr (stem @ ''.wav''),
                   w\<lparr>wav_files := wav_files w @
                        [(stem @ ''.wav'',
                          \<lparr> nchannels = 1, sampwidth = 2, framerate = sample_rate cfg,
                            frames = recording st \<rparr>)]\<rparr>))))"

text \<open>
  The body of the \<^verbatim>\<open>try\<close> block; \<open>None\<close> when the loop has not returned. An exception
  raised inside the \<^verbatim>\<open>with\<close> block still closes the stream, and a failing close
  replaces it.
\<close>

definition record_try ::
  "configuration \<Rightarrow> capture_env \<Rightarrow> world \<Rightarrow> ((py_exception + string) \<times> world) option" where
  "record_try cfg env w =
     (case stream_open env of
        Some e \<Rightarrow> Some (Inl e, w)
      | None \<Rightarrow>
          (case capture_loop cfg (ticks env) initial_state of
             None \<Rightarrow> None
           | Some (Raised e) \<Rightarrow>
               Some (Inl (case stream_close env of Some e' \<Rightarrow> e' | None \<Rightarrow> e), w)
           | Some (FlagSeen st) \<Rightarrow>
               (case stream_close env of
                  Some e \<Rightarrow> Some (Inl e, w)
                | None \<Rightarrow> Some (finish_recording cfg env w st))
           | Some (Broke st) \<Rightarrow>
               (case stream_close env of
                  Some e \<Rightarrow> Some (Inl e, w)
                | None \<Rightarrow> Some (finish_recording cfg env w st))))"

text \<open>\<^verbatim>\<open>record\<close>: the \<^verbatim>\<open>try\<close> block under its \<^verbatim>\<open>except Exception\<close> handler.\<close>

definition record_audio ::
  "configuration \<Rightarrow> capture_env \<Rightarrow> world \<Rightarrow> ((py_exception + string) \<times> world) option" where
  "record_audio cfg env w =
     (case record_try cfg env w of
        None \<Rightarrow> None
      | Some (Inr audio_file, w1) \<Rightarrow> Some (Inr audio_file, w1)
      | Some (Inl e, w1) \<Rightarrow>
          if is_Exception e then Some (Inr '''', put (''error'', ''Error'') w1)
          else Some (Inl e, w1))"

section \<open>Transcription\<close>

text \<open>
  The backends as the service sees them: whether CUDA is there, whether constructing
  \<^verbatim>\<open>WhisperModel\<close> on a device raises, and what decoding a file locally (the texts of the
  segments, in order) or sending it to the API returns or raises.
\<close>

record backend_env =
  cuda_available :: bool
  whisper_model :: "string \<Rightarrow> py_exception option"
  model_transcribe :: "string \<Rightarrow> py_exception + string list"
  api_transcribe :: "string \<Rightarrow> py_exception + string"

definition create_local_model ::
  "configuration \<Rightarrow> backend_env \<Rightarrow> world \<Rightarrow> (py_exception + string) \<times> world" where
  "create_local_model cfg benv w =
     (let device = (if cuda_available benv \<and> local_device cfg \<noteq> ''cpu''
                    then local_device cfg else ''cpu'');
          w1 = called (LoadModel device) w
      in case whisper_model benv device of
           None \<Rightarrow> (Inr device, w1)
         | Some e \<Rightarrow>
             if is_Exception e then
               (let w2 = called (LoadModel ''cpu'') w1
                in case whisper_model benv ''cpu'' of
                     None \<Rightarrow> (Inr ''cpu'', w2)
                   | Some e' \<Rightarrow> (Inl e', w2))
             else (Inl e, w1))"

definition transcribe_local ::
  "configuration \<Rightarrow> backend_env \<Rightarrow> world \<Rightarrow> string \<Rightarrow> (py_exception + string) \<times> world" where
  "transcribe_local cfg benv w temp_audio_file =
     (let (loaded, w1) =
            (case local_model w of
               None \<Rightarrow>
                 (case create_local_model cfg benv w of
                    (Inl e, w') \<Rightarrow> (Inl e, w')
                  | (Inr m, w') \<Rightarrow> (Inr m, w'\<lparr>local_model := Some m\<rparr>))
             | Some m \<Rightarrow> (Inr m, w))
      in case loaded of
           Inl e \<Rightarrow> (Inl e, w1)
         | Inr m \<Rightarrow>
             (let w2 = called (LocalTranscribe temp_audio_file) w1
              in case model_transcribe benv temp_audio_file of
                   Inl e \<Rightarrow> (Inl e, w2)
                 | Inr segments \<Rightarrow> (Inr (concat segments), w2)))"

definition transcribe_api ::
  "configuration \<Rightarrow> backend_env \<Rightarrow> world \<Rightarrow> string \<Rightarrow> (py_exception + string) \<times> world" where
  "transcribe_api cfg benv w temp_audio_file =
     (let w1 = called (ApiTranscribe temp_audio_file) w
      in (api_transcribe benv temp_audio_file, w1))"

text \<open>
  \<^verbatim>\<open>transcribe\<close>. A path is falsy exactly when it is the empty string; the
  \<^verbatim>\<open>cancel_flag\<close> argument is never read.
\<close>

definition transcribe ::
  "configuration \<Rightarrow> backend_env \<Rightarrow> world \<Rightarrow> string \<Rightarrow> (py_exception + string) \<times> world" where
  "transcribe cfg benv w audio_file =
     (if audio_file = '''' then (Inr '''', w)
      else
        (let w1 = put (''transcribing'', ''Transcribing...'') w
         in case (if use_api cfg then transcribe_api cfg benv w1 audio_file
                  else transcribe_local cfg benv w1 audio_file) of
              (Inl e, w2) \<Rightarrow> (Inl e, w2)
            | (Inr transcription, w2) \<Rightarrow>
                (Inr (post_process_transcription cfg transcription), w2)))"

record session_env =
  capture :: capture_env
  poll_session :: bool
  backend :: backend_env

definition record_and_transcribe ::
  "configuration \<Rightarrow> session_env \<Rightarrow> world \<Rightarrow> ((py_exception + string) \<times> world) option" where
  "record_and_transcribe cfg senv w =
     (case record_audio cfg (capture senv) w of
        None \<Rightarrow> None
      | Some (Inl e, w1) \<Rightarrow> Some (Inl e, w1)
      | Some (Inr audio_file, w1) \<Rightarrow>
          if poll_session senv then Some (Inr '''', w1)
          else Some (transcribe cfg (backend senv) w1 audio_file))"

section \<open>Auxiliary notions and example inputs\<close>

text \<open>A configuration for which none of the three mode comparisons of the loop holds.\<close>

definition idle_mode :: "configuration \<Rightarrow> bool" where
  "idle_mode cfg =
     (\<not> py_eq (recording_mode cfg) (Str (mode_value PRESS_TO_TOGGLE)) \<and>
      \<not> py_eq (recording_mode cfg) (Str (mode_value HOLD_TO_RECORD)) \<and>
      \<not> py_eq (recording_mode cfg) (Str (mode_value VOICE_ACTIVITY_DETECTION)))"

text \<open>A pass in which exactly one frame arrives and neither check sees the flag.\<close>

definition exact_frame :: "configuration \<Rightarrow> tick \<Rightarrow> bool" where
  "exact_frame cfg t =
     (\<not> poll_top t \<and> \<not> poll_mid t \<and> int (length (arrived t)) = blocksize cfg)"

text \<open>A pass in which neither the keyboard nor the detector raises.\<close>

definition calm :: "tick \<Rightarrow> bool" where
  "calm t = (\<not> isl (key_pressed t) \<and> \<not> isl (is_speech t))"

text \<open>
  The default configuration with another mode: held as the member of the enumeration, the
  only form \<open>Configuration\<close> accepts, or as the member's string value, the form the loop
  compares against.
\<close>

definition member_mode :: "RecordingMode \<Rightarrow> configuration" where
  "member_mode m = default_configuration\<lparr>recording_mode := Member m\<rparr>"

definition string_mode :: "RecordingMode \<Rightarrow> configuration" where
  "string_mode m = default_configuration\<lparr>recording_mode := Str (mode_value m)\<rparr>"

text \<open>Frames of 30 ms at 16 kHz, an untouched world, and environments without faults.\<close>

definition voice :: "sample list" where
  "voice = replicate 480 1"

definition silence :: "sample list" where
  "silence = replicate 480 0"

definition empty_world :: world where
  "empty_world =
     \<lparr> status_queue = [], wav_files = [], backend_calls = [], local_model = None \<rparr>"

definition quiet_env :: "tick list \<Rightarrow> bool \<Rightarrow> capture_env" where
  "quiet_env ts flag_after =
     \<lparr> stream_open = None, ticks = ts, stream_close = None, poll_after = flag_after,
       named_temporary_file = Inr ''tmp'', wave_write = None \<rparr>"

definition stub_backend :: backend_env where
  "stub_backend =
     \<lparr> cuda_available = False, whisper_model = (\<lambda>device. None),
       model_transcribe = (\<lambda>path. Inr [''test '', ''transcription.'']),
       api_transcribe = (\<lambda>path. Inr ''test transcription.'') \<rparr>"

definition failing_backend :: backend_env where
  "failing_backend =
     \<lparr> cuda_available = False, whisper_model = (\<lambda>device. None),
       model_transcribe = (\<lambda>path. Inl BackendError),
       api_transcribe = (\<lambda>path. Inl BackendError) \<rparr>"

definition unplugged :: capture_env where
  "unplugged = (quiet_env [] False)\<lparr>stream_open := Some PortAudioError\<rparr>"

text \<open>
  Sessions for examples. The key is held for one frame and released at the next (the loop
  is left by \<^verbatim>\<open>break\<close> when the mode is held as the string \<open>hold_to_record\<close>); or one
  frame arrives and the next head check sees the cancellation flag.
\<close>

definition held_one_frame :: "tick list" where
  "held_one_frame = [frame_tick voice True False, frame_tick silence False False]"

definition cancelled_after_one_frame :: "tick list" where
  "cancelled_after_one_frame = [frame_tick voice False True, cancel_tick]"

definition late_flag_session :: session_env where
  "late_flag_session =
     \<lparr> capture = quiet_env held_one_frame False, poll_session = True,
       backend = stub_backend \<rparr>"

definition close_fault_session :: session_env where
  "close_fault_session =
     \<lparr> capture = (quiet_env cancelled_after_one_frame True)\<lparr>stream_close := Some PortAudioError\<rparr>,
       poll_session = True, backend = stub_backend \<rparr>"

definition cancelled_session :: session_env where
  "cancelled_session =
     \<lparr> capture = quiet_env cancelled_after_one_frame True, poll_session = True,
       backend = stub_backend \<rparr>"

definition failing_session :: session_env where
  "failing_session =
     \<lparr> capture = quiet_env held_one_frame False, poll_session = False,
       backend = failing_backend \<rparr>"

text \<open>
  The end-to-end example of the specification: ten frames with the key up, then a frame
  with the key down, and a backend that answers \<open>test transcription.\<close>
\<close>

definition ten_frames_then_toggle :: "tick list" where
  "ten_frames_then_toggle =
     replicate 10 (frame_tick voice False False) @ [frame_tick silence True False]"

definition toggle_session :: session_env where
  "toggle_session =
     \<lparr> capture = quiet_env ten_frames_then_toggle False, poll_session = False,
       backend = stub_backend \<rparr>"

text \<open>
  The call to the selected backend raises \<open>e\<close>: the API request, the construction of the
  local model when none is loaded yet, or the local decoding.
\<close>

definition backend_raises ::
  "configuration \<Rightarrow> backend_env \<Rightarrow> world \<Rightarrow> string \<Rightarrow> py_exception \<Rightarrow> bool" where
  "backend_raises cfg benv w audio_file e =
     (if use_api cfg then api_transcribe benv audio_file = Inl e
      else
        (case local_model w of
           Some m \<Rightarrow> model_transcribe benv audio_file = Inl e
         | None \<Rightarrow>
             (case fst (create_local_model cfg benv w) of
                Inl e' \<Rightarrow> e' = e
              | Inr m \<Rightarrow> model_transcribe benv audio_file = Inl e)))"

section \<open>Properties of the post-processor\<close>

subsection \<open>Trimming\<close>

lemma trim_leading_eq: "trim_leading s = dropWhile is_space s"
  by (induction s) auto

lemma trim_trailing_eq: "trim_trailing s = rev (dropWhile is_space (rev s))"
proof (induction s)
  case Nil
  then show ?case by simp
next
  case (Cons c cs)
  show ?case
  proof (cases "\<forall>x\<in>set cs. is_space x")
    case True
    then have "dropWhile is_space (rev cs) = []" by simp
    with Cons True show ?thesis by (simp add: dropWhile_append)
  next
    case False
    then have "dropWhile is_space (rev cs) \<noteq> []" by simp
    then obtain d ds where "rev (dropWhile is_space (rev cs)) = d # ds"
      by (cases "rev (dropWhile is_space (rev cs))") auto
    with Cons False show ?thesis by (auto simp add: dropWhile_append)
  qed
qed

lemma rstrip_Cons:
  "rstrip (c # cs) =
     (case rstrip cs of [] \<Rightarrow> (if is_space c then [] else [c]) | d # ds \<Rightarrow> c # d # ds)"
  using trim_trailing_eq [of "c # cs"] trim_trailing_eq [of cs]
  by (simp add: rstrip_def)

lemma lstrip_rstrip_commute: "lstrip (rstrip s) = rstrip (lstrip s)"
proof (induction s)
  case Nil
  then show ?case by (simp add: lstrip_def rstrip_def)
next
  case (Cons c cs)
  show ?case
  proof (cases "is_space c")
    case True
    then have "rstrip (lstrip (c # cs)) = lstrip (rstrip cs)"
      using Cons by (simp add: lstrip_def)
    moreover have "lstrip (rstrip (c # cs)) = lstrip (rstrip cs)"
      using True by (simp add: rstrip_Cons lstrip_def split: list.splits)
    ultimately show ?thesis by simp
  next
    case False
    then have "lstrip (c # cs) = c # cs" by (simp add: lstrip_def)
    moreover have "lstrip (rstrip (c # cs)) = rstrip (c # cs)"
      using False by (simp add: rstrip_Cons lstrip_def split: list.splits)
    ultimately show ?thesis by simp
  qed
qed

lemma strip_eq_spec_trim: "strip s = spec_trim s"
proof -
  have "spec_trim s = rstrip (lstrip s)"
    by (simp add: spec_trim_def trim_trailing_eq trim_leading_eq rstrip_def lstrip_def)
  then show ?thesis by (simp add: strip_def lstrip_rstrip_commute)
qed

lemma slice_to_minus_one: "slice_to (- 1) s = butlast s"
  by (simp add: slice_to_def butlast_conv_take)

lemma endswith_period: "endswith s ''.'' \<longleftrightarrow> s \<noteq> [] \<and> last s = CHR ''.''"
proof (cases s rule: rev_cases)
  case Nil
  then show ?thesis by (simp add: endswith_def)
next
  case (snoc ys y)
  then show ?thesis by (auto simp add: endswith_def)
qed

lemmas text_eval =
  post_process_transcription_def strip_def lstrip_def rstrip_def is_space_def endswith_def
  slice_to_def lower_def lower_char_def default_configuration_def Let_def

subsection \<open>The pipeline\<close>

text \<open>
  Claim C4. For every text and every configuration, \<open>post_process_transcription\<close> is the
  pipeline of the specification in its fixed order: trim the white space at both ends; if
  \<open>remove_trailing_period\<close> is set and the text ends with a period, drop exactly the last
  character; if \<open>add_trailing_space\<close> is set, append exactly one space; if
  \<open>remove_capitalization\<close> is set, lowercase the whole string. The result depends on the
  text and the three flags only.
\<close>

theorem post_process_is_pipeline:
  "post_process_transcription cfg t = spec_post_process (post_process_config cfg) t"
  by (simp add: post_process_transcription_def spec_post_process_def spec_lowercase_def
      spec_add_space_def spec_drop_period_def post_process_config_def strip_eq_spec_trim
      slice_to_minus_one endswith_period lower_def Let_def)

theorem post_process_is_pipeline_witness:
  "post_process_transcription default_configuration ''test transcription.'' = ''test transcription''
   \<and> spec_post_process (post_process_config default_configuration) ''test transcription.''
       = ''test transcription''"
proof -
  have "post_process_transcription default_configuration ''test transcription.''
        = ''test transcription''"
    by (simp add: text_eval)
  then show ?thesis
    using post_process_is_pipeline [of default_configuration "''test transcription.''"]
    by simp
qed

subsection \<open>Repeated application\<close>

lemma of_char_lt_256: "(of_char c :: nat) < 256"
  by (metis of_char_mod_256 mod_less_divisor zero_less_numeral)

lemma is_space_lower_char: "is_space (lower_char c) = is_space c"
  using of_char_lt_256 [of c]
  by (auto simp add: is_space_def lower_char_def Let_def)

lemma lower_char_idem: "lower_char (lower_char c) = lower_char c"
  using of_char_lt_256 [of c]
  by (auto simp add: lower_char_def Let_def)

lemma lower_char_period: "lower_char c = CHR ''.'' \<longleftrightarrow> c = CHR ''.''"
proof -
  have "lower_char c = CHR ''.'' \<longleftrightarrow> (of_char (lower_char c) :: nat) = of_char (CHR ''.'')"
    by (simp only: of_char_eq_iff)
  also have "\<dots> \<longleftrightarrow> (of_char c :: nat) = of_char (CHR ''.'')"
    using of_char_lt_256 [of c] by (auto simp add: lower_char_def Let_def)
  also have "\<dots> \<longleftrightarrow> c = CHR ''.''"
    by (simp only: of_char_eq_iff)
  finally show ?thesis .
qed

lemma is_space_blank: "is_space CHR '' ''"
  by (simp add: is_space_def)

lemma is_space_o_lower_char: "is_space \<circ> lower_char = is_space"
  by (rule ext) (simp add: is_space_lower_char)

lemma lstrip_lower: "lstrip (lower s) = lower (lstrip s)"
  by (simp add: lstrip_def lower_def dropWhile_map is_space_o_lower_char)

lemma rstrip_lower: "rstrip (lower s) = lower (rstrip s)"
  by (simp add: rstrip_def lower_def dropWhile_map is_space_o_lower_char rev_map)

lemma strip_lower: "strip (lower s) = lower (strip s)"
  by (simp add: strip_def lstrip_lower rstrip_lower)

lemma rstrip_append_blank: "rstrip (s @ '' '') = rstrip s"
  by (simp add: rstrip_def is_space_blank)

lemma strip_append_blank: "strip (s @ '' '') = strip s"
  by (simp add: strip_def rstrip_append_blank)

lemma lstrip_id: "s = [] \<or> \<not> is_space (hd s) \<Longrightarrow> lstrip s = s"
  by (cases s) (auto simp add: lstrip_def)

lemma rstrip_id: "s = [] \<or> \<not> is_space (last s) \<Longrightarrow> rstrip s = s"
  by (cases s rule: rev_cases) (auto simp add: rstrip_def)

lemma strip_id: "stripped s \<Longrightarrow> strip s = s"
  by (auto simp add: stripped_def strip_def lstrip_id rstrip_id)

lemma hd_lstrip: "lstrip s \<noteq> [] \<Longrightarrow> \<not> is_space (hd (lstrip s))"
  by (simp add: lstrip_def hd_dropWhile)

lemma last_rstrip: "rstrip s \<noteq> [] \<Longrightarrow> \<not> is_space (last (rstrip s))"
  by (simp add: rstrip_def last_rev hd_dropWhile)

lemma stripped_strip: "stripped (strip s)"
proof (cases "strip s = []")
  case True
  then show ?thesis by (simp add: stripped_def)
next
  case False
  have "\<not> is_space (hd (strip s))"
    using False hd_lstrip [of "rstrip s"] by (simp add: strip_def)
  moreover have "\<not> is_space (last (strip s))"
    using False last_rstrip [of "lstrip s"] by (simp add: strip_def lstrip_rstrip_commute)
  ultimately show ?thesis by (simp add: stripped_def)
qed

lemma stripped_butlast:
  assumes "stripped s" and "butlast s \<noteq> []" and "\<not> is_space (last (butlast s))"
  shows "stripped (butlast s)"
proof -
  from assms(2) have "s \<noteq> []" by auto
  with assms(1) have "\<not> is_space (hd s)" by (simp add: stripped_def)
  moreover have "hd (butlast s) = hd s"
    using assms(2) by (cases s) auto
  ultimately show ?thesis using assms(3) by (simp add: stripped_def)
qed

lemma endswith_period_lower: "endswith (lower s) ''.'' = endswith s ''.''"
  by (cases "s = []") (simp_all add: endswith_period lower_def last_map lower_char_period)

lemma post_process_finish:
  "post_process_transcription cfg t =
     finish cfg (if remove_trailing_period cfg \<and> endswith (strip t) ''.''
                 then butlast (strip t) else strip t)"
  by (simp add: post_process_transcription_def finish_def Let_def slice_to_minus_one)

lemma strip_finish:
  "strip (finish cfg s) = (if remove_capitalization cfg then lower (strip s) else strip s)"
  by (simp add: finish_def Let_def strip_lower strip_append_blank)

lemma finish_lower: "remove_capitalization cfg \<Longrightarrow> finish cfg (lower s) = finish cfg s"
  by (simp add: finish_def Let_def lower_def lower_char_idem)

lemma post_process_fixed:
  assumes st: "stripped s" and np: "\<not> (remove_trailing_period cfg \<and> endswith s ''.'')"
  shows "post_process_transcription cfg (finish cfg s) = finish cfg s"
proof -
  have s: "strip s = s" using st by (rule strip_id)
  show ?thesis
  proof (cases "remove_capitalization cfg")
    case True
    then have "strip (finish cfg s) = lower s" by (simp add: strip_finish s)
    then show ?thesis using True np
      by (auto simp add: post_process_finish endswith_period_lower finish_lower)
  next
    case False
    then have "strip (finish cfg s) = s" by (simp add: strip_finish s)
    then show ?thesis using False np
      by (auto simp add: post_process_finish)
  qed
qed

text \<open>
  Claim C5, as stated: for every text and configuration, applying the post-processor twice
  gives what applying it once gives. It fails on a text that ends in two periods: one pass
  removes one period, the next pass removes the other.
\<close>

theorem post_process_idempotent_counterexample:
  "post_process_transcription default_configuration
     (post_process_transcription default_configuration ''Hello..'')
   \<noteq> post_process_transcription default_configuration ''Hello..''"
  by (simp add: text_eval)

lemma idempotent_unless_residual:
  assumes "\<not> residual_tail cfg t"
  shows "post_process_transcription cfg (post_process_transcription cfg t)
         = post_process_transcription cfg t"
proof (cases "remove_trailing_period cfg \<and> endswith (strip t) ''.''")
  case False
  then have "post_process_transcription cfg t = finish cfg (strip t)"
    by (auto simp add: post_process_finish)
  moreover have "post_process_transcription cfg (finish cfg (strip t)) = finish cfg (strip t)"
    using False by (intro post_process_fixed stripped_strip) simp
  ultimately show ?thesis by simp
next
  case True
  let ?s = "strip t"
  from True have lst: "last ?s = CHR ''.''"
    by (simp_all add: endswith_period)
  have eq: "post_process_transcription cfg t = finish cfg (butlast ?s)"
    using True by (simp add: post_process_finish)
  have "post_process_transcription cfg (finish cfg (butlast ?s)) = finish cfg (butlast ?s)"
  proof (cases "butlast ?s = []")
    case True
    then show ?thesis
      by (intro post_process_fixed) (simp_all add: stripped_def endswith_period)
  next
    case False
    then have "2 \<le> length ?s"
      by (cases ?s rule: rev_cases) (auto simp add: Suc_le_eq)
    with assms True lst
    have tl: "last (butlast ?s) \<noteq> CHR ''.''" "\<not> is_space (last (butlast ?s))"
      by (auto simp add: residual_tail_def Let_def)
    show ?thesis
      using False tl stripped_strip [of t]
      by (intro post_process_fixed stripped_butlast) (simp_all add: endswith_period)
  qed
  with eq show ?thesis by simp
qed

lemma length_lower: "length (lower s) = length s"
  by (simp add: lower_def)

lemma length_finish:
  "length (finish cfg s) = length s + (if add_trailing_space cfg then 1 else 0)"
  by (simp add: finish_def Let_def length_lower)

lemma length_post_process_le:
  "length (post_process_transcription cfg x)
     \<le> length (strip x) + (if add_trailing_space cfg then 1 else 0)"
  by (simp add: post_process_finish length_finish)

lemma length_strip_le: "length (strip s) \<le> length s"
proof -
  have "length (rstrip s) \<le> length s"
    by (simp add: rstrip_def) (metis length_dropWhile_le length_rev)
  moreover have "length (lstrip (rstrip s)) \<le> length (rstrip s)"
    by (simp add: lstrip_def length_dropWhile_le)
  ultimately show ?thesis by (simp add: strip_def)
qed

lemma length_rstrip_space:
  assumes "s \<noteq> []" "is_space (last s)"
  shows "length (rstrip s) < length s"
proof -
  from assms obtain ys y where s: "s = ys @ [y]" "is_space y"
    by (cases s rule: rev_cases) auto
  then have "rstrip s = rstrip ys" by (simp add: rstrip_def)
  moreover have "length (rstrip ys) \<le> length ys"
    by (simp add: rstrip_def) (metis length_dropWhile_le length_rev)
  ultimately show ?thesis using s by simp
qed

lemma length_strip_space:
  assumes "s \<noteq> []" "is_space (last s)"
  shows "length (strip s) < length s"
proof -
  have "length (lstrip (rstrip s)) \<le> length (rstrip s)"
    by (simp add: lstrip_def length_dropWhile_le)
  with length_rstrip_space [OF assms] show ?thesis by (simp add: strip_def)
qed

lemma length_strip_lower: "length (strip (lower s)) = length (strip s)"
  by (simp add: strip_lower length_lower)

lemma residual_not_idempotent:
  assumes "residual_tail cfg t"
  shows "post_process_transcription cfg (post_process_transcription cfg t)
         \<noteq> post_process_transcription cfg t"
proof -
  let ?s = "strip t"
  let ?s2 = "butlast ?s"
  let ?a = "(if add_trailing_space cfg then 1 else 0) :: nat"
  from assms have rtp: "remove_trailing_period cfg" and len: "2 \<le> length ?s"
    and lst: "last ?s = CHR ''.''"
    and tl: "last ?s2 = CHR ''.'' \<or> is_space (last ?s2)"
    by (simp_all add: residual_tail_def Let_def)
  from len have ne: "?s \<noteq> []" by auto
  have ne2: "?s2 \<noteq> []"
  proof
    assume "?s2 = []"
    then have "length ?s - 1 = 0" by (metis length_butlast list.size(3))
    with len show False by simp
  qed
  have once: "post_process_transcription cfg t = finish cfg ?s2"
    using rtp ne lst by (simp add: post_process_finish endswith_period)
  have l1: "length (finish cfg ?s2) = length ?s2 + ?a" by (rule length_finish)
  have st: "length (strip (finish cfg ?s2)) = length (strip ?s2)"
    by (simp add: strip_finish length_lower)
  have "length (post_process_transcription cfg (finish cfg ?s2)) < length ?s2 + ?a"
  proof (cases "is_space (last ?s2)")
    case True
    have "length (post_process_transcription cfg (finish cfg ?s2))
            \<le> length (strip (finish cfg ?s2)) + ?a"
      by (rule length_post_process_le)
    also have "\<dots> = length (strip ?s2) + ?a" by (simp only: st)
    also have "\<dots> < length ?s2 + ?a"
      using length_strip_space [OF ne2 True] by simp
    finally show ?thesis .
  next
    case False
    with tl have dot: "last ?s2 = CHR ''.''" by simp
    have "stripped ?s2"
      using stripped_strip [of t] ne2 False by (rule stripped_butlast)
    then have id: "strip ?s2 = ?s2" by (rule strip_id)
    have "endswith ?s2 ''.''"
      using dot ne2 by (simp add: endswith_period)
    then have e: "endswith (strip (finish cfg ?s2)) ''.''"
      by (simp add: strip_finish id endswith_period_lower)
    have "length (post_process_transcription cfg (finish cfg ?s2))
            = length (butlast (strip (finish cfg ?s2))) + ?a"
      using rtp e by (simp add: post_process_finish [of cfg "finish cfg ?s2"] length_finish)
    also have "\<dots> = length (strip ?s2) - 1 + ?a" by (simp add: st)
    also have "\<dots> < length ?s2 + ?a" using len by (simp add: id)
    finally show ?thesis .
  qed
  with l1 have "length (post_process_transcription cfg (finish cfg ?s2))
                  \<noteq> length (finish cfg ?s2)" by simp
  then show ?thesis by (auto simp add: once)
qed

text \<open>
  Claim C5, amended. Applying the post-processor twice gives what applying it once gives
  for every configuration and every text, except when \<open>remove_trailing_period\<close> is set and
  the trimmed text ends in a period that follows another period or white space
  (\<open>residual_tail\<close>); on exactly those texts the second pass changes the result once more.
\<close>

theorem post_process_idempotent_iff:
  "post_process_transcription cfg (post_process_transcription cfg t)
     = post_process_transcription cfg t \<longleftrightarrow> \<not> residual_tail cfg t"
  using residual_not_idempotent idempotent_unless_residual by blast

theorem post_process_idempotent_witness:
  "\<not> residual_tail default_configuration ''Hello.''
   \<and> post_process_transcription default_configuration ''Hello.'' = ''Hello''
   \<and> post_process_transcription default_configuration
        (post_process_transcription default_configuration ''Hello.'') = ''Hello''"
proof -
  have h: "\<not> residual_tail default_configuration ''Hello.''"
    by (simp add: residual_tail_def text_eval)
  have once: "post_process_transcription default_configuration ''Hello.'' = ''Hello''"
    by (simp add: text_eval)
  from post_process_idempotent_iff [of default_configuration "''Hello.''"] h
  have "post_process_transcription default_configuration
          (post_process_transcription default_configuration ''Hello.'')
        = post_process_transcription default_configuration ''Hello.''"
    by blast
  with once h show ?thesis by simp
qed

section \<open>Properties of transcribe\<close>

lemma called_status_queue: "status_queue (called c w) = status_queue w"
  by (simp add: called_def)

lemma put_backend_calls: "backend_calls (put ev w) = backend_calls w"
  by (simp add: put_def)

text \<open>
  Claim C10. Given the empty path (the value \<open>record_audio\<close> returns on cancellation and on
  a capture error), \<open>transcribe\<close> returns the empty string at once: the status queue gets no
  \<open>transcribing\<close> event and neither backend is called; nothing of the world changes.
\<close>

theorem transcribe_falsy_path:
  "transcribe cfg benv w '''' = (Inr '''', w)
   \<and> status_queue (snd (transcribe cfg benv w '''')) = status_queue w
   \<and> backend_calls (snd (transcribe cfg benv w '''')) = backend_calls w"
  by (simp add: transcribe_def)

section \<open>Properties of the capture loop and of record\<close>

lemma capture_loop_run:
  "capture_loop cfg ts st = (case loop_run cfg ts st of Inl ex \<Rightarrow> Some ex | Inr st' \<Rightarrow> None)"
  by (induction ts arbitrary: st) (auto split: sum.splits)

lemma loop_run_append:
  "loop_run cfg (ts @ us) st =
     (case loop_run cfg ts st of Inl ex \<Rightarrow> Inl ex | Inr st' \<Rightarrow> loop_run cfg us st')"
  by (induction ts arbitrary: st) (auto split: sum.splits)

lemma loop_pass_flag:
  "poll_top t \<Longrightarrow> loop_pass cfg t st = Inl (FlagSeen (st\<lparr>buffer := buffer st @ arrived t\<rparr>))"
  by (simp add: loop_pass_def)

lemma loop_pass_FlagSeen: "loop_pass cfg t st = Inl (FlagSeen s) \<Longrightarrow> poll_top t"
  by (auto simp add: loop_pass_def Let_def split: if_splits step.splits)

lemma loop_pass_no_flag:
  "\<not> poll_top t \<Longrightarrow> loop_pass cfg t st \<noteq> Inl (FlagSeen s)"
  using loop_pass_FlagSeen by blast

lemma idle_mode_Member: "recording_mode cfg = Member m \<Longrightarrow> idle_mode cfg"
  by (simp add: idle_mode_def)

lemma idle_mode_continuous: "recording_mode cfg = Str (mode_value CONTINUOUS) \<Longrightarrow> idle_mode cfg"
  by (simp add: idle_mode_def)

lemma mode_logic_idle: "idle_mode cfg \<Longrightarrow> mode_logic cfg t frame st = Next st"
  by (simp add: idle_mode_def mode_logic_def toggle_block_def hold_vad_block_def)

lemma loop_pass_idle:
  assumes "idle_mode cfg"
  shows "loop_pass cfg t st =
           (if poll_top t then Inl (FlagSeen (st\<lparr>buffer := buffer st @ arrived t\<rparr>))
            else if int (length (buffer st @ arrived t)) < blocksize cfg
              then Inr (st\<lparr>buffer := buffer st @ arrived t\<rparr>)
            else Inr (st\<lparr>buffer := slice_from (blocksize cfg) (buffer st @ arrived t)\<rparr>))"
  using assms by (simp add: loop_pass_def mode_logic_idle Let_def)

lemma loop_run_idle:
  assumes "idle_mode cfg"
  shows "(\<exists>s. loop_run cfg ts st = Inl (FlagSeen s) \<and> recording s = recording st
              \<and> num_silent_frames s = num_silent_frames st \<and> (\<exists>t\<in>set ts. poll_top t))
         \<or> (\<exists>s. loop_run cfg ts st = Inr s \<and> recording s = recording st
              \<and> num_silent_frames s = num_silent_frames st \<and> (\<forall>t\<in>set ts. \<not> poll_top t))"
proof (induction ts arbitrary: st)
  case Nil
  then show ?case by simp
next
  case (Cons t ts)
  show ?case
  proof (cases "poll_top t")
    case True
    then show ?thesis by (simp add: loop_pass_idle [OF assms])
  next
    case False
    define st' where "st' = (if int (length (buffer st @ arrived t)) < blocksize cfg
              then st\<lparr>buffer := buffer st @ arrived t\<rparr>
            else st\<lparr>buffer := slice_from (blocksize cfg) (buffer st @ arrived t)\<rparr>)"
    have p: "loop_pass cfg t st = Inr st'"
      using False by (simp add: loop_pass_idle [OF assms] st'_def)
    have r: "recording st' = recording st" "num_silent_frames st' = num_silent_frames st"
      by (simp_all add: st'_def)
    from Cons.IH [of st'] show ?thesis
      using False by (simp add: p r)
  qed
qed

lemma loop_pass_mid_flag:
  assumes "\<not> poll_top t" "poll_mid t"
  shows "\<exists>st'. loop_pass cfg t st = Inr st' \<and> recording st' = recording st
               \<and> num_silent_frames st' = num_silent_frames st"
  using assms by (simp add: loop_pass_def Let_def)

lemma capture_loop_exits_at_flag:
  assumes "poll_top t"
  shows "capture_loop cfg (pre @ t # post) st = capture_loop cfg (pre @ [t]) st"
    and "capture_loop cfg (pre @ t # post) st \<noteq> None"
  using assms
  by (auto simp add: capture_loop_run loop_run_append loop_pass_flag split: sum.splits)

lemma exact_frame_tick:
  "int (length f) = blocksize cfg \<Longrightarrow> exact_frame cfg (frame_tick f k s)"
  by (simp add: exact_frame_def frame_tick_def)

lemma frame_tick_sel:
  "poll_top (frame_tick f k s) = False" "arrived (frame_tick f k s) = f"
  "poll_mid (frame_tick f k s) = False" "key_pressed (frame_tick f k s) = Inr k"
  "is_speech (frame_tick f k s) = Inr s"
  by (simp_all add: frame_tick_def)

lemma slice_to_all: "slice_to (int (length xs)) xs = xs"
  by (simp add: slice_to_def)

lemma slice_from_all: "slice_from (int (length xs)) xs = []"
  by (simp add: slice_from_def)

lemma loop_pass_exact:
  assumes "buffer st = []" "exact_frame cfg t"
  shows "loop_pass cfg t st =
           (case mode_logic cfg t (arrived t) st of
              Next st' \<Rightarrow> Inr st'
            | Break st' \<Rightarrow> Inl (Broke st')
            | Raise e \<Rightarrow> Inl (Raised e))"
proof -
  have b: "blocksize cfg = int (length (arrived t))"
    using assms(2) by (simp add: exact_frame_def)
  have eq: "st\<lparr>buffer := []\<rparr> = st" using assms(1) by (cases st) simp
  have "loop_pass cfg t st =
           (case mode_logic cfg t (arrived t) (st\<lparr>buffer := []\<rparr>) of
              Next st' \<Rightarrow> Inr st'
            | Break st' \<Rightarrow> Inl (Broke st')
            | Raise e \<Rightarrow> Inl (Raised e))"
    using assms by (simp add: loop_pass_def exact_frame_def Let_def b slice_to_all slice_from_all
        del: of_nat_eq_iff)
  then show ?thesis by (simp only: eq)
qed

lemma loop_run_idle_exact:
  assumes "idle_mode cfg" "buffer st = []" "\<forall>t\<in>set ts. exact_frame cfg t"
  shows "loop_run cfg ts st = Inr st"
  using assms(3)
  by (induction ts) (simp_all add: loop_pass_exact [OF assms(2)] mode_logic_idle [OF assms(1)])

lemma mode_logic_vad:
  assumes "recording_mode cfg = Str (mode_value VOICE_ACTIVITY_DETECTION)"
  shows "mode_logic cfg t frame st =
           (case is_speech t of
              Inl e \<Rightarrow> Raise e
            | Inr True \<Rightarrow> Next ((extend_recording frame st)\<lparr>num_silent_frames := 0\<rparr>)
            | Inr False \<Rightarrow>
                (let st1 = (if 0 < length (recording st)
                            then st\<lparr>num_silent_frames := num_silent_frames st + 1\<rparr> else st)
                 in if num_silence_frames cfg \<le> num_silent_frames st1 then Break st1 else Next st1))"
  using assms by (simp add: mode_logic_def toggle_block_def hold_vad_block_def)

lemma mode_logic_toggle:
  assumes "recording_mode cfg = Str (mode_value PRESS_TO_TOGGLE)"
  shows "mode_logic cfg t frame st =
           (if 0 < length (recording st) then
              (case key_pressed t of
                 Inl e \<Rightarrow> Raise e
               | Inr True \<Rightarrow> Break st
               | Inr False \<Rightarrow> Next (extend_recording frame st))
            else Next (extend_recording frame st))"
  using assms
  by (simp add: mode_logic_def toggle_block_def hold_vad_block_def split: sum.splits bool.splits)

lemma mode_logic_hold:
  assumes "recording_mode cfg = Str (mode_value HOLD_TO_RECORD)"
  shows "mode_logic cfg t frame st =
           (case key_pressed t of
              Inl e \<Rightarrow> Raise e
            | Inr True \<Rightarrow> Next (extend_recording frame st)
            | Inr False \<Rightarrow> Break st)"
  using assms by (simp add: mode_logic_def toggle_block_def hold_vad_block_def)

lemma vad_silence_run:
  assumes vad: "recording_mode cfg = Str (mode_value VOICE_ACTIVITY_DETECTION)"
    and "buffer st = []" "recording st \<noteq> []"
    and "\<forall>t\<in>set ts. exact_frame cfg t \<and> is_speech t = Inr False"
    and "num_silent_frames st + int (length ts) < num_silence_frames cfg"
  shows "loop_run cfg ts st = Inr (st\<lparr>num_silent_frames := num_silent_frames st + int (length ts)\<rparr>)"
  using assms(2-)
proof (induction ts arbitrary: st)
  case Nil
  then show ?case by simp
next
  case (Cons t ts)
  let ?st' = "st\<lparr>num_silent_frames := num_silent_frames st + 1\<rparr>"
  have p: "loop_pass cfg t st = Inr ?st'"
    using Cons.prems by (simp add: loop_pass_exact mode_logic_vad [OF vad] Let_def)
  have "loop_run cfg ts ?st' = Inr (?st'\<lparr>num_silent_frames := num_silent_frames ?st' + int (length ts)\<rparr>)"
    using Cons.prems by (intro Cons.IH) simp_all
  then show ?case by (simp add: p add.assoc add.commute)
qed

lemma vad_silence_break:
  assumes vad: "recording_mode cfg = Str (mode_value VOICE_ACTIVITY_DETECTION)"
    and "buffer st = []" "recording st \<noteq> []"
    and "exact_frame cfg t" "is_speech t = Inr False"
    and "num_silence_frames cfg \<le> num_silent_frames st + 1"
  shows "loop_pass cfg t st = Inl (Broke (st\<lparr>num_silent_frames := num_silent_frames st + 1\<rparr>))"
  using assms(2-) by (simp add: loop_pass_exact mode_logic_vad [OF vad] Let_def)

lemma vad_branch_stops_exactly:
  assumes vad: "recording_mode cfg = Str (mode_value VOICE_ACTIVITY_DETECTION)"
    and f: "int (length f) = blocksize cfg" "f \<noteq> []"
    and g: "int (length g) = blocksize cfg"
    and N: "0 < num_silence_frames cfg"
  shows "capture_loop cfg (frame_tick f k True # replicate n (frame_tick g k' False)) initial_state
         = (if int n < num_silence_frames cfg then None
            else Some (Broke \<lparr> buffer = [], recording = f,
                               num_silent_frames = num_silence_frames cfg \<rparr>))"
proof -
  let ?st1 = "\<lparr> buffer = [], recording = f, num_silent_frames = 0 \<rparr>"
  let ?sil = "frame_tick g k' False"
  have p1: "loop_pass cfg (frame_tick f k True) initial_state = Inr ?st1"
    using f(1) by (simp add: loop_pass_exact exact_frame_tick mode_logic_vad [OF vad]
        initial_state_def extend_recording_def frame_tick_sel)
  have sil: "exact_frame cfg ?sil \<and> is_speech ?sil = Inr False"
    using g by (simp add: exact_frame_tick frame_tick_sel)
  show ?thesis
  proof (cases "int n < num_silence_frames cfg")
    case True
    have "loop_run cfg (replicate n ?sil) ?st1 = Inr (?st1\<lparr>num_silent_frames := num_silent_frames ?st1 + int (length (replicate n ?sil))\<rparr>)"
      using True f(2) sil by (intro vad_silence_run [OF vad]) simp_all
    then show ?thesis using True by (simp add: capture_loop_run p1)
  next
    case False
    define m where "m = nat (num_silence_frames cfg) - 1"
    have m: "int m + 1 = num_silence_frames cfg" using N by (simp add: m_def)
    from False m have "m < n" by linarith
    then have "n = m + Suc (n - Suc m)" by simp
    then have "replicate n ?sil = replicate (m + Suc (n - Suc m)) ?sil" by simp
    also have "\<dots> = replicate m ?sil @ ?sil # replicate (n - Suc m) ?sil"
      by (simp only: replicate_add replicate_Suc)
    finally have split: "replicate n ?sil = replicate m ?sil @ ?sil # replicate (n - Suc m) ?sil" .
    have r: "loop_run cfg (replicate m ?sil) ?st1
             = Inr \<lparr> buffer = [], recording = f, num_silent_frames = int m \<rparr>"
      using m f(2) sil vad_silence_run [OF vad, of ?st1 "replicate m ?sil"] by simp
    have b: "loop_pass cfg ?sil \<lparr> buffer = [], recording = f, num_silent_frames = int m \<rparr>
             = Inl (Broke \<lparr> buffer = [], recording = f, num_silent_frames = int m + 1 \<rparr>)"
      using m f(2) sil
        vad_silence_break [OF vad, of "\<lparr> buffer = [], recording = f, num_silent_frames = int m \<rparr>" ?sil]
      by simp
    show ?thesis
      using False m by (simp add: capture_loop_run p1 split loop_run_append r b)
  qed
qed

lemma toggle_run:
  assumes ptt: "recording_mode cfg = Str (mode_value PRESS_TO_TOGGLE)"
    and "buffer st = []"
    and "\<forall>t\<in>set ts. exact_frame cfg t \<and> key_pressed t = Inr False"
  shows "loop_run cfg ts st = Inr (st\<lparr>recording := recording st @ concat (map arrived ts)\<rparr>)"
  using assms(2-)
proof (induction ts arbitrary: st)
  case Nil
  then show ?case by simp
next
  case (Cons t ts)
  let ?st' = "st\<lparr>recording := recording st @ arrived t\<rparr>"
  have p: "loop_pass cfg t st = Inr ?st'"
    using Cons.prems by (simp add: loop_pass_exact mode_logic_toggle [OF ptt] extend_recording_def)
  have "loop_run cfg ts ?st' = Inr (?st'\<lparr>recording := recording ?st' @ concat (map arrived ts)\<rparr>)"
    using Cons.prems by (intro Cons.IH) simp_all
  then show ?case by (simp add: p)
qed

lemma toggle_break:
  assumes ptt: "recording_mode cfg = Str (mode_value PRESS_TO_TOGGLE)"
    and "buffer st = []" "recording st \<noteq> []" "exact_frame cfg t" "key_pressed t = Inr True"
  shows "loop_pass cfg t st = Inl (Broke st)"
  using assms(2-) by (simp add: loop_pass_exact mode_logic_toggle [OF ptt])

lemma length_concat_frames:
  assumes "\<forall>t\<in>set ts. exact_frame cfg t"
  shows "int (length (concat (map arrived ts))) = int (length ts) * blocksize cfg"
  using assms by (induction ts) (simp_all add: exact_frame_def algebra_simps)

lemma toggle_branch_stops:
  assumes ptt: "recording_mode cfg = Str (mode_value PRESS_TO_TOGGLE)"
    and pos: "0 < blocksize cfg" and ne: "ts \<noteq> []"
    and ts: "\<forall>t\<in>set ts. exact_frame cfg t \<and> key_pressed t = Inr False"
    and t: "exact_frame cfg t" "key_pressed t = Inr True"
  shows "capture_loop cfg (ts @ t # rest) initial_state
           = Some (Broke \<lparr> buffer = [], recording = concat (map arrived ts),
                             num_silent_frames = 0 \<rparr>)"
    and "int (length (concat (map arrived ts))) = int (length ts) * blocksize cfg"
proof -
  let ?st = "\<lparr> buffer = [], recording = concat (map arrived ts), num_silent_frames = 0 \<rparr>"
  have r: "loop_run cfg ts initial_state = Inr ?st"
    using toggle_run [OF ptt, of initial_state ts] ts by (simp add: initial_state_def)
  show len: "int (length (concat (map arrived ts))) = int (length ts) * blocksize cfg"
    using ts by (intro length_concat_frames) simp
  have "0 < int (length ts)" using ne by simp
  with pos len have "0 < int (length (concat (map arrived ts)))" by simp
  then have "recording ?st \<noteq> []" by auto
  then have "loop_pass cfg t ?st = Inl (Broke ?st)"
    using t by (intro toggle_break [OF ptt]) simp_all
  then show "capture_loop cfg (ts @ t # rest) initial_state = Some (Broke ?st)"
    by (simp add: capture_loop_run loop_run_append r)
qed

lemma mode_logic_calm: "calm t \<Longrightarrow> mode_logic cfg t frame st \<noteq> Raise e"
  by (auto simp add: calm_def mode_logic_def toggle_block_def hold_vad_block_def Let_def
      split: sum.splits bool.splits if_splits step.splits)

lemma loop_pass_calm: "calm t \<Longrightarrow> loop_pass cfg t st \<noteq> Inl (Raised e)"
  using mode_logic_calm [of t cfg]
  by (auto simp add: loop_pass_def Let_def split: step.splits)

lemma loop_run_calm: "\<forall>t\<in>set ts. calm t \<Longrightarrow> loop_run cfg ts st \<noteq> Inl (Raised e)"
  by (induction ts arbitrary: st) (auto simp add: loop_pass_calm split: sum.splits)

lemma record_try_open:
  "stream_open env = Some e \<Longrightarrow> record_try cfg env w = Some (Inl e, w)"
  by (simp add: record_try_def)

lemma record_try_running:
  "stream_open env = None \<Longrightarrow> capture_loop cfg (ticks env) initial_state = None
     \<Longrightarrow> record_try cfg env w = None"
  by (simp add: record_try_def)

lemma record_try_raised:
  "stream_open env = None \<Longrightarrow> capture_loop cfg (ticks env) initial_state = Some (Raised e)
     \<Longrightarrow> record_try cfg env w
         = Some (Inl (case stream_close env of Some e' \<Rightarrow> e' | None \<Rightarrow> e), w)"
  by (simp add: record_try_def)

lemma record_try_close_fails:
  "stream_open env = None \<Longrightarrow> capture_loop cfg (ticks env) initial_state = Some ex
     \<Longrightarrow> stream_close env = Some e \<Longrightarrow> record_try cfg env w = Some (Inl e, w)"
  by (cases ex) (simp_all add: record_try_def)

lemma record_try_finished:
  "stream_open env = None \<Longrightarrow> stream_close env = None
     \<Longrightarrow> capture_loop cfg (ticks env) initial_state = Some (FlagSeen st)
         \<or> capture_loop cfg (ticks env) initial_state = Some (Broke st)
     \<Longrightarrow> record_try cfg env w = Some (finish_recording cfg env w st)"
  by (auto simp add: record_try_def)

lemma finish_recording_Inl: "finish_recording cfg env w st = (Inl e, w') \<Longrightarrow> w' = w"
  by (auto simp add: finish_recording_def split: if_splits sum.splits option.splits)

lemma record_try_Inl: "record_try cfg env w = Some (Inl e, w') \<Longrightarrow> w' = w"
  by (auto simp add: record_try_def dest: finish_recording_Inl
      split: option.splits loop_exit.splits)

lemma record_audio_caught:
  "record_try cfg env w = Some (Inl e, w') \<Longrightarrow> is_Exception e
     \<Longrightarrow> record_audio cfg env w = Some (Inr '''', put (''error'', ''Error'') w)"
  using record_try_Inl [of cfg env w e w'] by (simp add: record_audio_def)

lemma record_audio_never_raises_Exception:
  "is_Exception e \<Longrightarrow> record_audio cfg env w \<noteq> Some (Inl e, w')"
  by (auto simp add: record_audio_def split: option.splits sum.splits prod.splits if_splits)

text \<open>
  Claim C9. Every device or stream error raised during capture (any exception deriving from
  \<^verbatim>\<open>Exception\<close>) is caught inside \<open>record_audio\<close>: whether it is raised when the stream
  is opened, when the stream is closed, inside the loop, or anywhere else in the
  \<^verbatim>\<open>try\<close> block, the call returns the empty path normally, the only change to the world is
  one \<open>error\<close> event on the status queue (no audio file, the service as it was), and the
  exception never comes out of \<open>record_audio\<close>.
\<close>

theorem record_audio_contains_capture_errors:
  assumes "is_Exception e"
  shows "(stream_open env = Some e
            \<longrightarrow> record_audio cfg env w = Some (Inr '''', put (''error'', ''Error'') w))
       \<and> (stream_open env = None \<and> capture_loop cfg (ticks env) initial_state \<noteq> None
            \<and> stream_close env = Some e
            \<longrightarrow> record_audio cfg env w = Some (Inr '''', put (''error'', ''Error'') w))
       \<and> (stream_open env = None \<and> capture_loop cfg (ticks env) initial_state = Some (Raised e)
            \<and> stream_close env = None
            \<longrightarrow> record_audio cfg env w = Some (Inr '''', put (''error'', ''Error'') w))
       \<and> (\<forall>w'. record_try cfg env w = Some (Inl e, w')
            \<longrightarrow> record_audio cfg env w = Some (Inr '''', put (''error'', ''Error'') w))
       \<and> (\<forall>w'. record_audio cfg env w \<noteq> Some (Inl e, w'))"
proof (intro conjI impI allI)
  assume "stream_open env = Some e"
  then show "record_audio cfg env w = Some (Inr '''', put (''error'', ''Error'') w)"
    using assms by (simp add: record_audio_def record_try_open)
next
  assume a: "stream_open env = None \<and> capture_loop cfg (ticks env) initial_state \<noteq> None
            \<and> stream_close env = Some e"
  then obtain ex where "capture_loop cfg (ticks env) initial_state = Some ex" by auto
  with a have "record_try cfg env w = Some (Inl e, w)"
    by (simp add: record_try_close_fails)
  then show "record_audio cfg env w = Some (Inr '''', put (''error'', ''Error'') w)"
    using assms by (rule record_audio_caught)
next
  assume "stream_open env = None \<and> capture_loop cfg (ticks env) initial_state = Some (Raised e)
            \<and> stream_close env = None"
  then have "record_try cfg env w = Some (Inl e, w)"
    by (simp add: record_try_raised)
  then show "record_audio cfg env w = Some (Inr '''', put (''error'', ''Error'') w)"
    using assms by (rule record_audio_caught)
next
  fix w'
  assume "record_try cfg env w = Some (Inl e, w')"
  then show "record_audio cfg env w = Some (Inr '''', put (''error'', ''Error'') w)"
    using assms by (rule record_audio_caught)
next
  fix w'
  show "record_audio cfg env w \<noteq> Some (Inl e, w')"
    using assms by (rule record_audio_never_raises_Exception)
qed

theorem record_audio_contains_capture_errors_witness:
  "is_Exception PortAudioError
   \<and> stream_open unplugged = Some PortAudioError
   \<and> record_audio default_configuration unplugged empty_world
       = Some (Inr '''', empty_world\<lparr>status_queue := [(''error'', ''Error'')]\<rparr>)"
proof -
  have h: "is_Exception PortAudioError" by simp
  have o: "stream_open unplugged = Some PortAudioError"
    by (simp add: unplugged_def quiet_env_def)
  from record_audio_contains_capture_errors [OF h, of unplugged default_configuration empty_world] o
  have "record_audio default_configuration unplugged empty_world
          = Some (Inr '''', put (''error'', ''Error'') empty_world)"
    by blast
  then show ?thesis using h o by (simp add: put_def empty_world_def)
qed


lemma blocksize_default: "blocksize default_configuration = 480"
  by (simp add: blocksize_def default_configuration_def frame_duration_def)

lemma blocksize_string_mode: "blocksize (string_mode m) = 480"
  by (simp add: blocksize_def string_mode_def default_configuration_def frame_duration_def)

lemma blocksize_member_mode: "blocksize (member_mode m) = 480"
  by (simp add: blocksize_def member_mode_def default_configuration_def frame_duration_def)

lemma exact_voice: "blocksize cfg = 480 \<Longrightarrow> exact_frame cfg (frame_tick voice k s)"
  by (simp add: exact_frame_tick voice_def)

lemma exact_silence: "blocksize cfg = 480 \<Longrightarrow> exact_frame cfg (frame_tick silence k s)"
  by (simp add: exact_frame_tick silence_def)

lemma voice_not_empty: "voice \<noteq> []"
  by (simp add: voice_def)

lemma hold_pass_pressed:
  assumes "recording_mode cfg = Str (mode_value HOLD_TO_RECORD)"
    and "buffer st = []" "exact_frame cfg t" "key_pressed t = Inr True"
  shows "loop_pass cfg t st = Inr (st\<lparr>recording := recording st @ arrived t\<rparr>)"
  using assms(2-) by (simp add: loop_pass_exact mode_logic_hold [OF assms(1)] extend_recording_def)

lemma hold_pass_released:
  assumes "recording_mode cfg = Str (mode_value HOLD_TO_RECORD)"
    and "buffer st = []" "exact_frame cfg t" "key_pressed t = Inr False"
  shows "loop_pass cfg t st = Inl (Broke st)"
  using assms(2-) by (simp add: loop_pass_exact mode_logic_hold [OF assms(1)])

lemma hold_mode: "recording_mode (string_mode HOLD_TO_RECORD) = Str (mode_value HOLD_TO_RECORD)"
  by (simp add: string_mode_def)

lemma hold_released_at_once:
  "capture_loop (string_mode HOLD_TO_RECORD) [frame_tick silence False False] initial_state
     = Some (Broke initial_state)"
  using hold_pass_released [OF hold_mode, of initial_state "frame_tick silence False False"]
  by (simp add: exact_silence blocksize_string_mode frame_tick_sel initial_state_def)

lemma hold_one_frame:
  "capture_loop (string_mode HOLD_TO_RECORD)
     [frame_tick voice True False, frame_tick silence False False] initial_state
     = Some (Broke \<lparr> buffer = [], recording = voice, num_silent_frames = 0 \<rparr>)"
proof -
  have 1: "loop_pass (string_mode HOLD_TO_RECORD) (frame_tick voice True False) initial_state
           = Inr \<lparr> buffer = [], recording = voice, num_silent_frames = 0 \<rparr>"
    using hold_pass_pressed [OF hold_mode, of initial_state "frame_tick voice True False"]
    by (simp add: exact_voice blocksize_string_mode frame_tick_sel initial_state_def)
  have 2: "loop_pass (string_mode HOLD_TO_RECORD) (frame_tick silence False False)
             \<lparr> buffer = [], recording = voice, num_silent_frames = 0 \<rparr>
           = Inl (Broke \<lparr> buffer = [], recording = voice, num_silent_frames = 0 \<rparr>)"
    using hold_pass_released [OF hold_mode,
        of "\<lparr> buffer = [], recording = voice, num_silent_frames = 0 \<rparr>"
           "frame_tick silence False False"]
    by (simp add: exact_silence blocksize_string_mode frame_tick_sel)
  show ?thesis by (simp add: 1 2)
qed

lemmas env_eval = quiet_env_def empty_world_def put_def called_def

text \<open>
  A service whose mode is held as the string \<open>hold_to_record\<close>: with the key already
  released when the first frame arrives, the stop rule leaves the loop at once with
  nothing recorded, the flag is never set, and a WAV file without frames is written and
  returned.
\<close>

lemma hold_released_empty_artifact:
  "record_audio (string_mode HOLD_TO_RECORD)
     (quiet_env [frame_tick silence False False] False) empty_world
   = Some (Inr ''tmp.wav'',
           empty_world\<lparr>wav_files :=
             [(''tmp.wav'', \<lparr> nchannels = 1, sampwidth = 2, framerate = 16000, frames = [] \<rparr>)]\<rparr>)"
  using hold_released_at_once
  by (simp add: record_audio_def record_try_def finish_recording_def env_eval
      initial_state_def string_mode_def default_configuration_def)

lemma hold_one_frame_artifact:
  "record_audio (string_mode HOLD_TO_RECORD)
     (quiet_env [frame_tick voice True False, frame_tick silence False False] False) empty_world
   = Some (Inr ''tmp.wav'',
           empty_world\<lparr>wav_files :=
             [(''tmp.wav'', \<lparr> nchannels = 1, sampwidth = 2, framerate = 16000, frames = voice \<rparr>)]\<rparr>)"
  using hold_one_frame
  by (simp add: record_audio_def record_try_def finish_recording_def env_eval
      string_mode_def default_configuration_def)

lemma capture_loop_flag_after_calm:
  assumes "poll_top t" "\<forall>u\<in>set pre. calm u"
  shows "\<exists>st. capture_loop cfg (pre @ t # post) st0 = Some (FlagSeen st)
            \<or> capture_loop cfg (pre @ t # post) st0 = Some (Broke st)"
proof (cases "loop_run cfg pre st0")
  case (Inl ex)
  with loop_run_calm [OF assms(2), of cfg st0] obtain st where "ex = FlagSeen st \<or> ex = Broke st"
    by (cases ex) auto
  with Inl show ?thesis by (auto simp add: capture_loop_run loop_run_append)
next
  case (Inr st')
  then show ?thesis using assms(1) by (simp add: capture_loop_run loop_run_append loop_pass_flag)
qed

lemma record_audio_cancelled:
  assumes "stream_open env = None" "stream_close env = None" "poll_after env"
    and "capture_loop cfg (ticks env) initial_state = Some (FlagSeen st)
         \<or> capture_loop cfg (ticks env) initial_state = Some (Broke st)"
  shows "record_audio cfg env w = Some (Inr '''', put (''cancel'', '''') w)"
  using record_try_finished [OF assms(1,2,4), of w] assms(3)
  by (simp add: record_audio_def finish_recording_def)

text \<open>
  Claim C2, amended. Suppose the stream opens and closes without error, no pass before
  \<open>t\<close> raises, the check at the head of pass \<open>t\<close> sees the cancellation flag, and the
  flag is still set at the check of \<open>record_audio\<close> after the loop and at the check of
  \<open>record_and_transcribe\<close>. Then the loop has been left by the head of pass \<open>t\<close>, whatever
  passes follow; \<open>record_audio\<close> queues one \<open>cancel\<close> event and returns the empty path;
  \<open>record_and_transcribe\<close> returns the empty text with no other change to the world, so no
  \<open>transcribing\<close> event and no backend call. Moreover a pass whose second check sees the
  flag drops its frame without running the mode logic: the recording and the silence counter
  stay as they were.
\<close>

theorem cancellation_seen_by_the_loop:
  assumes "stream_open (capture senv) = None" and "stream_close (capture senv) = None"
    and "ticks (capture senv) = pre @ t # post" and "poll_top t"
    and "\<forall>u\<in>set pre. calm u"
    and "poll_after (capture senv)" and "poll_session senv"
  shows "capture_loop cfg (ticks (capture senv)) initial_state
           = capture_loop cfg (pre @ [t]) initial_state
       \<and> (\<exists>st. capture_loop cfg (ticks (capture senv)) initial_state = Some (FlagSeen st)
              \<or> capture_loop cfg (ticks (capture senv)) initial_state = Some (Broke st))
       \<and> record_audio cfg (capture senv) w = Some (Inr '''', put (''cancel'', '''') w)
       \<and> record_and_transcribe cfg senv w = Some (Inr '''', put (''cancel'', '''') w)
       \<and> backend_calls (put (''cancel'', '''') w) = backend_calls w
       \<and> (\<forall>u st. \<not> poll_top u \<and> poll_mid u \<longrightarrow>
            (\<exists>st'. loop_pass cfg u st = Inr st' \<and> recording st' = recording st
                   \<and> num_silent_frames st' = num_silent_frames st))"
proof -
  have 1: "capture_loop cfg (ticks (capture senv)) initial_state
           = capture_loop cfg (pre @ [t]) initial_state"
    using capture_loop_exits_at_flag(1) [OF assms(4), of cfg pre post initial_state]
    by (simp only: assms(3))
  have ex: "\<exists>st. capture_loop cfg (ticks (capture senv)) initial_state = Some (FlagSeen st)
              \<or> capture_loop cfg (ticks (capture senv)) initial_state = Some (Broke st)"
    using capture_loop_flag_after_calm [OF assms(4,5), of cfg post initial_state]
    by (simp only: assms(3))
  then obtain st where 2: "capture_loop cfg (ticks (capture senv)) initial_state = Some (FlagSeen st)
              \<or> capture_loop cfg (ticks (capture senv)) initial_state = Some (Broke st)" ..
  have 3: "record_audio cfg (capture senv) w = Some (Inr '''', put (''cancel'', '''') w)"
    using assms(1,2,6) 2 by (rule record_audio_cancelled)
  have 4: "record_and_transcribe cfg senv w = Some (Inr '''', put (''cancel'', '''') w)"
    using assms(7) by (simp add: record_and_transcribe_def 3)
  have 5: "\<forall>u st. \<not> poll_top u \<and> poll_mid u \<longrightarrow>
            (\<exists>st'. loop_pass cfg u st = Inr st' \<and> recording st' = recording st
                   \<and> num_silent_frames st' = num_silent_frames st)"
    using loop_pass_mid_flag by blast
  have 6: "backend_calls (put (''cancel'', '''') w) = backend_calls w"
    by (simp add: put_def)
  from 1 ex 3 4 6 5 show ?thesis by (intro conjI)
qed

lemma held_one_frame_loop:
  "capture_loop (string_mode HOLD_TO_RECORD) held_one_frame initial_state
     = Some (Broke \<lparr> buffer = [], recording = voice, num_silent_frames = 0 \<rparr>)"
  using hold_one_frame by (simp add: held_one_frame_def)

lemma default_idle: "idle_mode default_configuration"
  by (simp add: idle_mode_Member default_configuration_def)

lemma member_idle: "idle_mode (member_mode m)"
  by (simp add: idle_mode_Member member_mode_def)

lemma idle_frames_then_cancel:
  assumes "idle_mode cfg" "\<forall>t\<in>set ts. exact_frame cfg t"
  shows "capture_loop cfg ts initial_state = None"
    and "capture_loop cfg (ts @ cancel_tick # rest) initial_state = Some (FlagSeen initial_state)"
proof -
  have r: "loop_run cfg ts initial_state = Inr initial_state"
    using assms by (intro loop_run_idle_exact) (simp_all add: initial_state_def)
  show "capture_loop cfg ts initial_state = None"
    by (simp add: capture_loop_run r)
  have "loop_pass cfg cancel_tick initial_state = Inl (FlagSeen initial_state)"
    by (simp add: loop_pass_def cancel_tick_def initial_state_def)
  then show "capture_loop cfg (ts @ cancel_tick # rest) initial_state
             = Some (FlagSeen initial_state)"
    by (simp add: capture_loop_run loop_run_append r)
qed

lemma cancelled_after_one_frame_loop:
  "capture_loop default_configuration cancelled_after_one_frame initial_state
     = Some (FlagSeen initial_state)"
  using idle_frames_then_cancel(2) [OF default_idle, of "[frame_tick voice False True]" "[]"]
  by (simp add: cancelled_after_one_frame_def exact_voice blocksize_default)

text \<open>
  Claim C2, as stated: at whatever point of a session the flag becomes set, a \<open>cancel\<close>
  event is queued. Two sessions in which the flag is set and no \<open>cancel\<close> event is
  queued. In the first (mode held as the string \<open>hold_to_record\<close>) the loop is left by
  \<^verbatim>\<open>break\<close> and the flag becomes set after the check of \<open>record_audio\<close> and before the
  check of \<open>record_and_transcribe\<close>: the text is empty and no backend is called, but the
  status queue stays empty. In the second (the default configuration) the head check sees
  the flag and closing the stream then fails: the queue holds \<open>error\<close> and no \<open>cancel\<close>.
\<close>

theorem cancellation_counterexample:
  "record_and_transcribe (string_mode HOLD_TO_RECORD) late_flag_session empty_world
     = Some (Inr '''',
             \<lparr> status_queue = [],
               wav_files = [(''tmp.wav'', \<lparr> nchannels = 1, sampwidth = 2, framerate = 16000,
                                           frames = voice \<rparr>)],
               backend_calls = [], local_model = None \<rparr>)
   \<and> record_and_transcribe default_configuration close_fault_session empty_world
     = Some (Inr '''',
             \<lparr> status_queue = [(''error'', ''Error'')], wav_files = [],
               backend_calls = [], local_model = None \<rparr>)"
proof
  show "record_and_transcribe (string_mode HOLD_TO_RECORD) late_flag_session empty_world
     = Some (Inr '''',
             \<lparr> status_queue = [],
               wav_files = [(''tmp.wav'', \<lparr> nchannels = 1, sampwidth = 2, framerate = 16000,
                                           frames = voice \<rparr>)],
               backend_calls = [], local_model = None \<rparr>)"
    using held_one_frame_loop
    by (simp add: record_and_transcribe_def late_flag_session_def record_audio_def
        record_try_def finish_recording_def env_eval string_mode_def default_configuration_def)
  show "record_and_transcribe default_configuration close_fault_session empty_world
     = Some (Inr '''',
             \<lparr> status_queue = [(''error'', ''Error'')], wav_files = [],
               backend_calls = [], local_model = None \<rparr>)"
    using cancelled_after_one_frame_loop
    by (simp add: record_and_transcribe_def close_fault_session_def record_audio_def
        record_try_def env_eval)
qed

lemma calm_frame_tick: "calm (frame_tick f k s)"
  by (simp add: calm_def frame_tick_sel)

theorem cancellation_seen_by_the_loop_witness:
  "stream_open (capture cancelled_session) = None
   \<and> stream_close (capture cancelled_session) = None
   \<and> ticks (capture cancelled_session) = [frame_tick voice False True] @ cancel_tick # []
   \<and> poll_top cancel_tick
   \<and> calm (frame_tick voice False True)
   \<and> poll_after (capture cancelled_session) \<and> poll_session cancelled_session
   \<and> record_and_transcribe default_configuration cancelled_session empty_world
       = Some (Inr '''',
               \<lparr> status_queue = [(''cancel'', '''')], wav_files = [],
                 backend_calls = [], local_model = None \<rparr>)"
proof -
  have o: "stream_open (capture cancelled_session) = None"
    and c: "stream_close (capture cancelled_session) = None"
    and t: "ticks (capture cancelled_session) = [frame_tick voice False True] @ cancel_tick # []"
    and a: "poll_after (capture cancelled_session)" and s: "poll_session cancelled_session"
    by (simp_all add: cancelled_session_def quiet_env_def cancelled_after_one_frame_def)
  have f: "poll_top cancel_tick" by (simp add: cancel_tick_def)
  have k: "\<forall>u\<in>set [frame_tick voice False True]. calm u" by (simp add: calm_frame_tick)
  from cancellation_seen_by_the_loop [OF o c t f k a s, of default_configuration empty_world]
  have "record_and_transcribe default_configuration cancelled_session empty_world
          = Some (Inr '''', put (''cancel'', '''') empty_world)"
    by blast
  then show ?thesis using o c t a s f k by (simp add: put_def empty_world_def)
qed

section \<open>When record hands over an audio file\<close>






section \<open>The modes\<close>

text \<open>
  Claim C7, as stated: in continuous mode every incoming frame is appended to the
  recording. The loop has no branch for the mode: a frame that arrives is cut from the
  buffer and dropped, and when the flag is seen the recording is still empty.
\<close>

theorem continuous_counterexample:
  "capture_loop (member_mode CONTINUOUS) [frame_tick voice False False, cancel_tick] initial_state
     = Some (FlagSeen \<lparr> buffer = [], recording = [], num_silent_frames = 0 \<rparr>)
   \<and> voice \<noteq> []"
  using idle_frames_then_cancel(2) [OF member_idle, of "[frame_tick voice False False]" CONTINUOUS "[]"]
  by (simp add: exact_voice blocksize_member_mode initial_state_def voice_not_empty)

text \<open>
  Claim C7, amended. In continuous mode (the mode held as the member or as its string
  value) no incoming frame is appended, and the loop has no stop rule of its own: it is
  left only when a check at its head sees the cancellation flag, with the recording still
  empty; as long as no head check sees the flag it keeps going.
\<close>

theorem continuous_appends_nothing:
  assumes "recording_mode cfg = Member CONTINUOUS \<or> recording_mode cfg = Str (mode_value CONTINUOUS)"
  shows "(capture_loop cfg ts initial_state = None \<and> (\<forall>t\<in>set ts. \<not> poll_top t))
       \<or> (\<exists>st. capture_loop cfg ts initial_state = Some (FlagSeen st) \<and> recording st = []
              \<and> (\<exists>t\<in>set ts. poll_top t))"
proof -
  from assms have "idle_mode cfg"
    using idle_mode_Member idle_mode_continuous by blast
  from loop_run_idle [OF this, of ts initial_state] show ?thesis
    by (auto simp add: capture_loop_run initial_state_def)
qed

theorem continuous_appends_nothing_witness:
  "recording_mode (member_mode CONTINUOUS) = Member CONTINUOUS
   \<and> (\<exists>st. capture_loop (member_mode CONTINUOUS) [frame_tick voice False False, cancel_tick]
              initial_state = Some (FlagSeen st) \<and> recording st = [])"
proof -
  have m: "recording_mode (member_mode CONTINUOUS) = Member CONTINUOUS"
    by (simp add: member_mode_def)
  then have h: "recording_mode (member_mode CONTINUOUS) = Member CONTINUOUS
       \<or> recording_mode (member_mode CONTINUOUS) = Str (mode_value CONTINUOUS)" ..
  have "poll_top cancel_tick" by (simp add: cancel_tick_def)
  with continuous_appends_nothing [OF h, of "[frame_tick voice False False, cancel_tick]"]
  show ?thesis using m by auto
qed

lemma default_valid: "Configuration default_configuration = Inr default_configuration"
  by (simp add: Configuration_def validate_configuration_def default_configuration_def)

lemma member_valid: "Configuration (member_mode m) = Inr (member_mode m)"
  by (simp add: Configuration_def validate_configuration_def member_mode_def)

lemma string_invalid: "Configuration (string_mode m) = Inl ValueError"
  by (simp add: Configuration_def validate_configuration_def string_mode_def)

lemma threshold_default: "num_silence_frames default_configuration = 30"
  by (simp add: num_silence_frames_def default_configuration_def frame_duration_def)

lemma threshold_string_mode: "num_silence_frames (string_mode m) = 30"
  by (simp add: num_silence_frames_def string_mode_def default_configuration_def frame_duration_def)

text \<open>
  \<open>Configuration\<close> accepts a configuration only when its mode is a member of the
  enumeration, and for such a configuration none of the comparisons of the loop holds: the
  loop is left only when a head check sees the flag, and nothing is ever recorded.
\<close>

lemma accepted_configuration_idle: "Configuration c = Inr c' \<Longrightarrow> idle_mode c'"
  by (auto simp add: Configuration_def validate_configuration_def idle_mode_Member
      split: py_value.splits)

lemma accepted_configuration_records_nothing:
  assumes "Configuration c = Inr c'" and "capture_loop c' ts initial_state = Some ex"
  shows "\<exists>s. ex = FlagSeen s \<and> recording s = [] \<and> (\<exists>t\<in>set ts. poll_top t)"
  using loop_run_idle [OF accepted_configuration_idle [OF assms(1)], of ts initial_state] assms(2)
  by (auto simp add: capture_loop_run initial_state_def)

text \<open>
  Claim C3 (with \<open>silence_duration\<close> 900 the threshold is 30 frames, and in voice activity
  mode the loop stops exactly when 30 non-speech frames in a row follow a speech frame),
  evaluated on the default configuration, which \<open>Configuration\<close> accepts and whose mode is
  the member \<open>VOICE_ACTIVITY_DETECTION\<close>. The threshold is 30. The loop compares the
  member with the string \<open>voice_activity_detection\<close>, the two are never equal, and the
  branch is not entered: after one speech frame and 30 non-speech frames the loop is still
  going, and when the flag is then seen nothing has been recorded.
\<close>

theorem vad_member_mode_never_stops:
  "Configuration default_configuration = Inr default_configuration
   \<and> recording_mode default_configuration = Member VOICE_ACTIVITY_DETECTION
   \<and> num_silence_frames default_configuration = 30
   \<and> capture_loop default_configuration
        (frame_tick voice False True # replicate 30 (frame_tick silence False False))
        initial_state = None
   \<and> capture_loop default_configuration
        ((frame_tick voice False True # replicate 30 (frame_tick silence False False))
          @ cancel_tick # [])
        initial_state
      = Some (FlagSeen \<lparr> buffer = [], recording = [], num_silent_frames = 0 \<rparr>)"
proof -
  let ?ts = "frame_tick voice False True # replicate 30 (frame_tick silence False False)"
  have e: "\<forall>t\<in>set ?ts. exact_frame default_configuration t"
    by (simp add: exact_voice exact_silence blocksize_default)
  from idle_frames_then_cancel(1) [OF default_idle e]
    idle_frames_then_cancel(2) [OF default_idle e, of "[]"]
  show ?thesis
    by (simp add: default_valid threshold_default initial_state_def)
      (simp add: default_configuration_def)
qed

text \<open>
  The branch itself, entered when the mode is held as the string: the loop is left exactly
  at the 30th non-speech frame that follows the speech frame.
\<close>

lemma vad_string_mode_stops_at_30:
  "capture_loop (string_mode VOICE_ACTIVITY_DETECTION)
     (frame_tick voice False True # replicate n (frame_tick silence False False)) initial_state
   = (if n < 30 then None
      else Some (Broke \<lparr> buffer = [], recording = voice, num_silent_frames = 30 \<rparr>))"
proof -
  have m: "recording_mode (string_mode VOICE_ACTIVITY_DETECTION)
           = Str (mode_value VOICE_ACTIVITY_DETECTION)"
    by (simp add: string_mode_def)
  have l: "int (length voice) = blocksize (string_mode VOICE_ACTIVITY_DETECTION)"
    "int (length silence) = blocksize (string_mode VOICE_ACTIVITY_DETECTION)"
    by (simp_all add: blocksize_string_mode voice_def silence_def)
  from vad_branch_stops_exactly [OF m l(1) voice_not_empty l(2), of False n False]
  show ?thesis by (simp add: threshold_string_mode)
qed

text \<open>
  Claim C8 (in press-to-toggle mode every frame is appended and the session stops when the
  key is pressed again after at least one frame; ten frames and a toggle give ten frames of
  samples), evaluated on the configuration \<open>Configuration\<close> accepts for that mode. The
  member \<open>PRESS_TO_TOGGLE\<close> is never equal to the string \<open>press_to_toggle\<close>, so the
  branch is not entered: after ten frames and the toggle the loop is still going, and when
  the flag is then seen nothing has been recorded.
\<close>

theorem toggle_member_mode_never_stops:
  "Configuration (member_mode PRESS_TO_TOGGLE) = Inr (member_mode PRESS_TO_TOGGLE)
   \<and> recording_mode (member_mode PRESS_TO_TOGGLE) = Member PRESS_TO_TOGGLE
   \<and> capture_loop (member_mode PRESS_TO_TOGGLE) ten_frames_then_toggle initial_state = None
   \<and> capture_loop (member_mode PRESS_TO_TOGGLE) (ten_frames_then_toggle @ cancel_tick # [])
        initial_state
      = Some (FlagSeen \<lparr> buffer = [], recording = [], num_silent_frames = 0 \<rparr>)"
proof -
  have e: "\<forall>t\<in>set ten_frames_then_toggle. exact_frame (member_mode PRESS_TO_TOGGLE) t"
    by (auto simp add: ten_frames_then_toggle_def exact_voice exact_silence blocksize_member_mode)
  from idle_frames_then_cancel(1) [OF member_idle e]
    idle_frames_then_cancel(2) [OF member_idle e, of "[]"]
  show ?thesis
    by (simp add: member_valid initial_state_def) (simp add: member_mode_def)
qed

text \<open>
  The branch itself, entered when the mode is held as the string: ten frames are appended
  and the toggle leaves the loop.
\<close>

lemma toggle_string_mode_ten_frames:
  "capture_loop (string_mode PRESS_TO_TOGGLE) ten_frames_then_toggle initial_state
     = Some (Broke \<lparr> buffer = [], recording = concat (replicate 10 voice),
                       num_silent_frames = 0 \<rparr>)
   \<and> length (concat (replicate 10 voice)) = 10 * 480"
proof -
  let ?cfg = "string_mode PRESS_TO_TOGGLE"
  let ?ts = "replicate 10 (frame_tick voice False False)"
  have m: "recording_mode ?cfg = Str (mode_value PRESS_TO_TOGGLE)"
    by (simp add: string_mode_def)
  have pos: "0 < blocksize ?cfg" by (simp add: blocksize_string_mode)
  have ne: "?ts \<noteq> []" by simp
  have ts: "\<forall>t\<in>set ?ts. exact_frame ?cfg t \<and> key_pressed t = Inr False"
    by (simp add: exact_voice blocksize_string_mode frame_tick_sel)
  have t: "exact_frame ?cfg (frame_tick silence True False)"
    "key_pressed (frame_tick silence True False) = Inr True"
    by (simp_all add: exact_silence blocksize_string_mode frame_tick_sel)
  have a: "map arrived ?ts = replicate 10 voice"
    by (simp add: frame_tick_sel)
  from toggle_branch_stops(1) [OF m pos ne ts t, of "[]"]
  have "capture_loop ?cfg ten_frames_then_toggle initial_state
     = Some (Broke \<lparr> buffer = [], recording = concat (replicate 10 voice),
                       num_silent_frames = 0 \<rparr>)"
    by (simp only: a ten_frames_then_toggle_def)
  moreover have "length (concat (replicate 10 voice)) = 10 * 480"
    by (simp add: voice_def length_concat sum_list_replicate)
  ultimately show ?thesis by simp
qed

lemma create_local_model_fst:
  "fst (create_local_model cfg benv (put ev w)) = fst (create_local_model cfg benv w)"
  by (simp add: create_local_model_def Let_def split: option.splits)

lemma create_local_model_queue:
  "status_queue (snd (create_local_model cfg benv w)) = status_queue w"
  by (simp add: create_local_model_def Let_def called_def split: option.splits)

lemma transcribe_api_raises:
  "api_transcribe benv f = Inl e \<Longrightarrow>
     \<exists>w2. transcribe_api cfg benv w f = (Inl e, w2) \<and> status_queue w2 = status_queue w"
  by (simp add: transcribe_api_def called_def)

lemma transcribe_local_raises:
  assumes "\<not> use_api cfg" "backend_raises cfg benv w f e"
  shows "\<exists>w2. transcribe_local cfg benv w f = (Inl e, w2) \<and> status_queue w2 = status_queue w"
proof (cases "local_model w")
  case (Some m)
  with assms show ?thesis
    by (simp add: backend_raises_def transcribe_local_def called_def)
next
  case None
  obtain r w' where c: "create_local_model cfg benv w = (r, w')"
    by (cases "create_local_model cfg benv w")
  then have q: "status_queue w' = status_queue w"
    using create_local_model_queue [of cfg benv w] by simp
  show ?thesis
  proof (cases r)
    case (Inl e')
    with assms None c q show ?thesis
      by (simp add: backend_raises_def transcribe_local_def)
  next
    case (Inr m)
    with assms None c q show ?thesis
      by (simp add: backend_raises_def transcribe_local_def called_def)
  qed
qed

lemma backend_raises_put:
  "backend_raises cfg benv (put ev w) f e = backend_raises cfg benv w f e"
proof -
  have "local_model (put ev w) = local_model w" by (simp add: put_def)
  then show ?thesis
    by (simp add: backend_raises_def create_local_model_fst split: option.splits)
qed

lemma transcribe_raises:
  assumes "audio_file \<noteq> ''''" "backend_raises cfg benv w audio_file e"
  shows "\<exists>w2. transcribe cfg benv w audio_file = (Inl e, w2)
            \<and> status_queue w2 = status_queue w @ [(''transcribing'', ''Transcribing...'')]"
proof (cases "use_api cfg")
  case True
  with assms(2) have "api_transcribe benv audio_file = Inl e"
    by (simp add: backend_raises_def)
  from transcribe_api_raises [OF this, of cfg "put (''transcribing'', ''Transcribing...'') w"]
  show ?thesis using True assms(1) by (auto simp add: transcribe_def put_def)
next
  case False
  from assms(2) have "backend_raises cfg benv (put (''transcribing'', ''Transcribing...'') w) audio_file e"
    by (simp add: backend_raises_put)
  from transcribe_local_raises [OF False this]
  show ?thesis using False assms(1) by (auto simp add: transcribe_def put_def)
qed

text \<open>
  Claim C1 (an exception raised by the backend is caught by \<open>record_and_transcribe\<close>, which
  queues an \<open>error\<close> event and returns the empty text), evaluated on the code: whenever
  the recording step hands over an audio file, the flag is not set and the backend call
  raises \<open>e\<close>, both \<open>transcribe\<close> and \<open>record_and_transcribe\<close> end with the exception
  \<open>e\<close> itself; the last event queued is \<open>transcribing\<close>, and no \<open>error\<close> event follows.
\<close>

theorem backend_exception_propagates:
  assumes "record_audio cfg (capture senv) w = Some (Inr audio_file, w1)"
    and "audio_file \<noteq> ''''" and "\<not> poll_session senv"
    and "backend_raises cfg (backend senv) w1 audio_file e"
  shows "\<exists>w2. transcribe cfg (backend senv) w1 audio_file = (Inl e, w2)
            \<and> record_and_transcribe cfg senv w = Some (Inl e, w2)
            \<and> status_queue w2 = status_queue w1 @ [(''transcribing'', ''Transcribing...'')]"
proof -
  from transcribe_raises [OF assms(2,4)] obtain w2
    where t: "transcribe cfg (backend senv) w1 audio_file = (Inl e, w2)"
      and q: "status_queue w2 = status_queue w1 @ [(''transcribing'', ''Transcribing...'')]"
    by blast
  have "record_and_transcribe cfg senv w = Some (Inl e, w2)"
    using assms(1,3) t by (simp add: record_and_transcribe_def)
  with t q show ?thesis by blast
qed

lemma held_one_frame_artifact:
  "record_audio (string_mode HOLD_TO_RECORD) (quiet_env held_one_frame False) empty_world
   = Some (Inr ''tmp.wav'',
           empty_world\<lparr>wav_files :=
             [(''tmp.wav'', \<lparr> nchannels = 1, sampwidth = 2, framerate = 16000, frames = voice \<rparr>)]\<rparr>)"
  using hold_one_frame_artifact by (simp add: held_one_frame_def)

theorem backend_exception_propagates_witness:
  "record_audio (string_mode HOLD_TO_RECORD) (capture failing_session) empty_world
     = Some (Inr ''tmp.wav'',
             empty_world\<lparr>wav_files :=
               [(''tmp.wav'', \<lparr> nchannels = 1, sampwidth = 2, framerate = 16000,
                                 frames = voice \<rparr>)]\<rparr>)
   \<and> \<not> poll_session failing_session
   \<and> backend_raises (string_mode HOLD_TO_RECORD) (backend failing_session)
        (empty_world\<lparr>wav_files :=
               [(''tmp.wav'', \<lparr> nchannels = 1, sampwidth = 2, framerate = 16000,
                                 frames = voice \<rparr>)]\<rparr>) ''tmp.wav'' BackendError
   \<and> record_and_transcribe (string_mode HOLD_TO_RECORD) failing_session empty_world
     = Some (Inl BackendError,
             \<lparr> status_queue = [(''transcribing'', ''Transcribing...'')],
               wav_files = [(''tmp.wav'', \<lparr> nchannels = 1, sampwidth = 2, framerate = 16000,
                                           frames = voice \<rparr>)],
               backend_calls = [LoadModel ''cpu'', LocalTranscribe ''tmp.wav''],
               local_model = Some ''cpu'' \<rparr>)"
proof -
  let ?w1 = "empty_world\<lparr>wav_files :=
               [(''tmp.wav'', \<lparr> nchannels = 1, sampwidth = 2, framerate = 16000,
                                 frames = voice \<rparr>)]\<rparr>"
  have r: "record_audio (string_mode HOLD_TO_RECORD) (capture failing_session) empty_world
           = Some (Inr ''tmp.wav'', ?w1)"
    using held_one_frame_artifact by (simp add: failing_session_def)
  have n: "''tmp.wav'' \<noteq> ''''" by simp
  have p: "\<not> poll_session failing_session" by (simp add: failing_session_def)
  have b: "backend_raises (string_mode HOLD_TO_RECORD) (backend failing_session) ?w1
             ''tmp.wav'' BackendError"
    by (simp add: backend_raises_def failing_session_def failing_backend_def
        create_local_model_def string_mode_def default_configuration_def empty_world_def
        Let_def)
  have t: "transcribe (string_mode HOLD_TO_RECORD) (backend failing_session) ?w1 ''tmp.wav''
           = (Inl BackendError,
             \<lparr> status_queue = [(''transcribing'', ''Transcribing...'')],
               wav_files = [(''tmp.wav'', \<lparr> nchannels = 1, sampwidth = 2, framerate = 16000,
                                           frames = voice \<rparr>)],
               backend_calls = [LoadModel ''cpu'', LocalTranscribe ''tmp.wav''],
               local_model = Some ''cpu'' \<rparr>)"
    by (simp add: transcribe_def transcribe_local_def create_local_model_def
        failing_session_def failing_backend_def string_mode_def default_configuration_def
        empty_world_def put_def called_def Let_def)
  from backend_exception_propagates [OF r n p b] t r p b show ?thesis
    by auto
qed

lemma end_to_end_string_mode:
  "record_and_transcribe (string_mode PRESS_TO_TOGGLE) toggle_session empty_world
     = Some (Inr ''test transcription'',
             \<lparr> status_queue = [(''transcribing'', ''Transcribing...'')],
               wav_files = [(''tmp.wav'', \<lparr> nchannels = 1, sampwidth = 2, framerate = 16000,
                                           frames = concat (replicate 10 voice) \<rparr>)],
               backend_calls = [LoadModel ''cpu'', LocalTranscribe ''tmp.wav''],
               local_model = Some ''cpu'' \<rparr>)"
proof -
  have l: "capture_loop (string_mode PRESS_TO_TOGGLE) ten_frames_then_toggle initial_state
     = Some (Broke \<lparr> buffer = [], recording = concat (replicate 10 voice),
                       num_silent_frames = 0 \<rparr>)"
    using toggle_string_mode_ten_frames by simp
  have pp: "post_process_transcription (string_mode PRESS_TO_TOGGLE) ''test transcription.''
            = ''test transcription''"
    by (simp add: text_eval string_mode_def)
  have r: "record_audio (string_mode PRESS_TO_TOGGLE) (capture toggle_session) empty_world
     = Some (Inr ''tmp.wav'',
           empty_world\<lparr>wav_files :=
             [(''tmp.wav'', \<lparr> nchannels = 1, sampwidth = 2, framerate = 16000,
                               frames = concat (replicate 10 voice) \<rparr>)]\<rparr>)"
    using l by (simp add: toggle_session_def record_audio_def record_try_def
        finish_recording_def env_eval string_mode_def default_configuration_def)
  have u: "use_api (string_mode PRESS_TO_TOGGLE) = False"
    "local_device (string_mode PRESS_TO_TOGGLE) = ''auto''"
    by (simp_all add: string_mode_def default_configuration_def)
  show ?thesis
    by (simp add: record_and_transcribe_def r)
      (simp add: toggle_session_def stub_backend_def transcribe_def transcribe_local_def
        create_local_model_def u pp env_eval Let_def)
qed

end
